theory Spec2Isabelle
  imports Main "HOL-Library.Word"
begin

section \<open>Mifare Classic engine: constants and return codes (mifare\_tool.h)\<close>

type_synonym byte = "8 word"

datatype CardType = CARD_UNKNOWN | CARD_MIFARE_1K | CARD_MIFARE_4K

definition SUCCESS :: int where "SUCCESS = 0"
definition ERROR_NO_TAG :: int where "ERROR_NO_TAG = - 1"
definition ERROR_AUTH_FAILED :: int where "ERROR_AUTH_FAILED = - 2"
definition ERROR_READ_FAILED :: int where "ERROR_READ_FAILED = - 3"
definition ERROR_WRITE_FAILED :: int where "ERROR_WRITE_FAILED = - 4"
definition ERROR_FILE_ERROR :: int where "ERROR_FILE_ERROR = - 5"
definition ERROR_INVALID_DATA :: int where "ERROR_INVALID_DATA = - 6"

definition MIFARE_1K_SECTORS :: int where "MIFARE_1K_SECTORS = 16"
definition MIFARE_4K_SECTORS :: int where "MIFARE_4K_SECTORS = 40"
definition MIFARE_1K_BLOCKS :: int where "MIFARE_1K_BLOCKS = 64"
definition MIFARE_4K_BLOCKS :: int where "MIFARE_4K_BLOCKS = 256"
definition MIFARE_BLOCK_SIZE :: nat where "MIFARE_BLOCK_SIZE = 16"
definition MIFARE_KEY_SIZE :: nat where "MIFARE_KEY_SIZE = 6"
definition MIFARE_UID_MAX_SIZE :: nat where "MIFARE_UID_MAX_SIZE = 10"
definition MIFARE_ATQA_SIZE :: nat where "MIFARE_ATQA_SIZE = 2"
definition BLOCKS_PER_SMALL_SECTOR :: int where "BLOCKS_PER_SMALL_SECTOR = 4"
definition BLOCKS_PER_LARGE_SECTOR :: int where "BLOCKS_PER_LARGE_SECTOR = 16"
definition SMALL_SECTOR_COUNT :: int where "SMALL_SECTOR_COUNT = 32"
definition LARGE_SECTOR_BOUNDARY :: int where "LARGE_SECTOR_BOUNDARY = 128"
definition UID_BLOCK :: int where "UID_BLOCK = 0"
definition KEY_A_OFFSET :: nat where "KEY_A_OFFSET = 0"
definition KEY_B_OFFSET :: nat where "KEY_B_OFFSET = 10"
definition CARD_DETECT_INTERVAL_MS :: nat where "CARD_DETECT_INTERVAL_MS = 50"
definition CARD_DETECT_SHORT_TIMEOUT_MS :: nat where "CARD_DETECT_SHORT_TIMEOUT_MS = 100"
definition CARD_RESELECT_TIMEOUT_MS :: nat where "CARD_RESELECT_TIMEOUT_MS = 500"
definition CARD_REACTIVATE_DELAY_MS :: nat where "CARD_REACTIVATE_DELAY_MS = 50"
definition BLOCK_WRITE_DELAY_MS :: nat where "BLOCK_WRITE_DELAY_MS = 10"
definition SINGLE_BLOCK_TIMEOUT_MS :: nat where "SINGLE_BLOCK_TIMEOUT_MS = 5000"

section \<open>Sector and block addressing (mifare\_tool.cpp)\<close>

text \<open>C's integer division truncates toward zero; HOL's \<open>div\<close> rounds down.\<close>

definition c_div :: "int \<Rightarrow> int \<Rightarrow> int" where
  "c_div a b = sgn a * sgn b * (\<bar>a\<bar> div \<bar>b\<bar>)"

definition getSectorCount :: "CardType \<Rightarrow> int" where
  "getSectorCount type = (if type = CARD_MIFARE_1K then MIFARE_1K_SECTORS else MIFARE_4K_SECTORS)"

definition getFirstBlockOfSector :: "int \<Rightarrow> int" where
  "getFirstBlockOfSector sector =
     (if sector < SMALL_SECTOR_COUNT then sector * BLOCKS_PER_SMALL_SECTOR
      else LARGE_SECTOR_BOUNDARY + (sector - SMALL_SECTOR_COUNT) * BLOCKS_PER_LARGE_SECTOR)"

definition getBlockCountInSector :: "int \<Rightarrow> int" where
  "getBlockCountInSector sector =
     (if sector < SMALL_SECTOR_COUNT then BLOCKS_PER_SMALL_SECTOR else BLOCKS_PER_LARGE_SECTOR)"

text \<open>The sector of a block is computed inline, by the same expression, in
  \<open>write_single_block_headless\<close> and in \<open>writeSingleBlock\<close>.\<close>

definition sector_of_block :: "int \<Rightarrow> int" where
  "sector_of_block block =
     (if block < LARGE_SECTOR_BOUNDARY then c_div block BLOCKS_PER_SMALL_SECTOR
      else SMALL_SECTOR_COUNT + c_div (block - LARGE_SECTOR_BOUNDARY) BLOCKS_PER_LARGE_SECTOR)"

text \<open>\<open>_total_blocks\<close> is assigned from the card type in \<open>detectCard\<close> and in
  \<open>parseFileFormat\<close>, both times by this expression.\<close>

definition total_blocks_of :: "CardType \<Rightarrow> int" where
  "total_blocks_of type = (if type = CARD_MIFARE_1K then MIFARE_1K_BLOCKS else MIFARE_4K_BLOCKS)"

definition trailer_block_of :: "int \<Rightarrow> int" where
  "trailer_block_of sector = getFirstBlockOfSector sector + (getBlockCountInSector sector - 1)"

section \<open>Arduino \<open>String\<close> and C library helpers\<close>

text \<open>A \<open>String\<close> is a list of bytes.  The models below follow the Arduino core
  (\<open>trim\<close>, \<open>startsWith\<close>, \<open>substring\<close>, \<open>indexOf\<close>, \<open>replace\<close>,
  \<open>toUpperCase\<close>) and the C library (\<open>isspace\<close>, \<open>isxdigit\<close>, \<open>strtoul\<close>).\<close>

definition isspace :: "char \<Rightarrow> bool" where
  "isspace c = (c = CHR '' '' \<or> c = CHR 0x09 \<or> c = CHR 0x0A \<or> c = CHR 0x0B \<or> c = CHR 0x0C
                \<or> c = CHR 0x0D)"

definition trim :: "string \<Rightarrow> string" where
  "trim s = rev (dropWhile isspace (rev (dropWhile isspace s)))"

definition startsWith :: "string \<Rightarrow> string \<Rightarrow> bool" where
  "startsWith s prefix = (take (length prefix) s = prefix)"

definition endsWith :: "string \<Rightarrow> string \<Rightarrow> bool" where
  "endsWith s suffix = (length suffix \<le> length s \<and> drop (length s - length suffix) s = suffix)"

text \<open>\<open>substring(left, right)\<close> swaps its bounds when \<open>left > right\<close>, returns the empty
  string when \<open>left\<close> is past the end, and clips \<open>right\<close> to the length.\<close>

definition substring :: "string \<Rightarrow> nat \<Rightarrow> nat \<Rightarrow> string" where
  "substring s left right =
     (let l = min left right; r = max left right in take (r - l) (drop l s))"

definition substring_from :: "string \<Rightarrow> nat \<Rightarrow> string" where
  "substring_from s left = drop left s"

fun find_char :: "char \<Rightarrow> string \<Rightarrow> nat \<Rightarrow> int" where
  "find_char c [] i = - 1"
| "find_char c (x # xs) i = (if x = c then int i else find_char c xs (Suc i))"

definition indexOf :: "string \<Rightarrow> char \<Rightarrow> int" where
  "indexOf s c = find_char c s 0"

fun find_str :: "string \<Rightarrow> string \<Rightarrow> nat \<Rightarrow> int" where
  "find_str p [] i = (if p = [] then int i else - 1)"
| "find_str p (x # xs) i =
     (if take (length p) (x # xs) = p then int i else find_str p xs (Suc i))"

definition indexOfStr :: "string \<Rightarrow> string \<Rightarrow> int" where
  "indexOfStr s p = find_str p s 0"

text \<open>\<open>replace(find, "")\<close> with a one-character \<open>find\<close> deletes every occurrence.\<close>

definition remove_char :: "char \<Rightarrow> string \<Rightarrow> string" where
  "remove_char c s = filter (\<lambda>x. x \<noteq> c) s"

definition toupper :: "char \<Rightarrow> char" where
  "toupper c =
     (case map_of (zip ''abcdefghijklmnopqrstuvwxyz'' ''ABCDEFGHIJKLMNOPQRSTUVWXYZ'') c of
        None \<Rightarrow> c | Some u \<Rightarrow> u)"

definition toUpperCase :: "string \<Rightarrow> string" where
  "toUpperCase s = map toupper s"

definition hexval :: "char \<Rightarrow> nat option" where
  "hexval c =
     (let n = (of_char c :: nat) in
      if 48 \<le> n \<and> n \<le> 57 then Some (n - 48)
      else if 97 \<le> n \<and> n \<le> 102 then Some (n - 87)
      else if 65 \<le> n \<and> n \<le> 70 then Some (n - 55)
      else None)"

definition isxdigit :: "char \<Rightarrow> bool" where
  "isxdigit c = (hexval c \<noteq> None)"

fun strtoul_digits :: "nat \<Rightarrow> string \<Rightarrow> nat" where
  "strtoul_digits acc [] = acc"
| "strtoul_digits acc (c # cs) =
     (case hexval c of None \<Rightarrow> acc | Some d \<Rightarrow> strtoul_digits (acc * 16 + d) cs)"

text \<open>\<open>strtoul(s, NULL, 16)\<close> on a 32-bit \<open>unsigned long\<close>: leading white space, an
  optional sign, an optional \<open>0x\<close>, then hexadecimal digits up to the first other
  character; the value saturates at \<open>ULONG_MAX\<close> and a minus sign negates it modulo
  \<open>2^32\<close>.\<close>

definition strtoul16 :: "string \<Rightarrow> nat" where
  "strtoul16 s =
     (let s1 = dropWhile isspace s;
          neg = (take 1 s1 = ''-'');
          s2 = (if take 1 s1 = ''-'' \<or> take 1 s1 = ''+'' then drop 1 s1 else s1);
          s3 = (if take 2 s2 = ''0x'' \<or> take 2 s2 = ''0X'' then drop 2 s2 else s2);
          v = strtoul_digits 0 s3
      in if v > 2 ^ 32 - 1 then 2 ^ 32 - 1
         else if neg then (2 ^ 32 - v) mod 2 ^ 32 else v)"

text \<open>Assigning the result to a \<open>uint8_t\<close> keeps the low eight bits.\<close>

definition byte_of_hex :: "string \<Rightarrow> byte" where
  "byte_of_hex s = of_nat (strtoul16 s)"

definition hexdigit :: "nat \<Rightarrow> char" where
  "hexdigit n = ''0123456789abcdef'' ! n"

text \<open>\<open>String(v, HEX)\<close> for a \<open>uint8_t\<close>: lower-case digits, no leading zero.\<close>

definition String_HEX :: "byte \<Rightarrow> string" where
  "String_HEX v =
     (if unat v < 16 then [hexdigit (unat v)]
      else [hexdigit (unat v div 16), hexdigit (unat v mod 16)])"

fun dec_digits :: "nat \<Rightarrow> string" where
  "dec_digits n =
     (if n < 10 then [''0123456789'' ! n] else dec_digits (n div 10) @ [''0123456789'' ! (n mod 10)])"

declare dec_digits.simps [simp del]

text \<open>\<open>String(n)\<close> and \<open>print(n)\<close> for an \<open>int\<close>: decimal.\<close>

definition String_DEC :: "int \<Rightarrow> string" where
  "String_DEC i = (if i < 0 then CHR ''-'' # dec_digits (nat (- i)) else dec_digits (nat i))"

text \<open>The idiom \<open>if (v < 0x10) s += "0"; s += String(v, HEX)\<close> used by every encoder.\<close>

definition hex2 :: "byte \<Rightarrow> string" where
  "hex2 v = (if v < 0x10 then ''0'' else []) @ String_HEX v"

definition println :: "string \<Rightarrow> string" where
  "println s = s @ [CHR 0x0D, CHR 0x0A]"

text \<open>\<open>while (file.available()) line = file.readStringUntil('\n')\<close>: the lines of a file,
  split at line feeds; a final line without line feed is read too.\<close>

fun read_lines :: "string \<Rightarrow> string \<Rightarrow> string list" where
  "read_lines cur [] = (if cur = [] then [] else [cur])"
| "read_lines cur (c # cs) =
     (if c = CHR 0x0A then cur # read_lines [] cs else read_lines (cur @ [c]) cs)"

definition file_lines :: "string \<Rightarrow> string list" where
  "file_lines content = read_lines [] content"

text \<open>Arrays are maps from index to byte; \<open>memcpy(dst + off, src, length src)\<close> is
  \<open>store\<close>, and \<open>load\<close> reads \<open>n\<close> bytes from an offset.\<close>

definition store :: "(nat \<Rightarrow> byte) \<Rightarrow> nat \<Rightarrow> byte list \<Rightarrow> (nat \<Rightarrow> byte)" where
  "store a off bs = (\<lambda>i. if off \<le> i \<and> i < off + length bs then bs ! (i - off) else a i)"

definition load :: "(nat \<Rightarrow> byte) \<Rightarrow> nat \<Rightarrow> nat \<Rightarrow> byte list" where
  "load a off n = map (\<lambda>i. a (off + i)) [0..<n]"

section \<open>Key database (mifare\_keys\_manager.cpp)\<close>

definition KEY_HEX_LENGTH :: nat where "KEY_HEX_LENGTH = 12"
definition KEY_BYTE_LENGTH :: nat where "KEY_BYTE_LENGTH = 6"

definition isValidHexKey :: "string \<Rightarrow> bool" where
  "isValidHexKey key = (length key = KEY_HEX_LENGTH \<and> list_all isxdigit key)"

text \<open>\<open>keyToBytes(key, bytes)\<close> leaves the buffer as it was when the key is malformed.\<close>

definition keyToBytes :: "string \<Rightarrow> byte list \<Rightarrow> byte list" where
  "keyToBytes key bytes =
     (if \<not> isValidHexKey key then bytes
      else map (\<lambda>i. byte_of_hex (substring key (i * 2) (i * 2 + 2))) [0..<KEY_BYTE_LENGTH])"

section \<open>The PN532 transport\<close>

text \<open>The card reader and the clock are the environment of the engines.  Every call to
  the driver is recorded; its outcome (\<open>None\<close> for failure, \<open>Some\<close> bytes for success:
  the UID found, the block read, nothing for an authentication or a write) and the time
  it takes are functions of the calls made so far, so that a card may appear, vanish or be
  swapped at any moment.  \<open>delay\<close> advances the clock.\<close>

datatype pn532_call =
    ReadPassiveTargetID nat
  | AuthenticateBlock "byte list" int nat "byte list"
  | ReadDataBlock int
  | WriteDataBlock int "byte list"
  | GetFirmwareVersion
  | PN532_init
  | SRIX_initiate_select
  | SRIX_get_uid
  | SRIX_read_block nat
  | SRIX_write_block nat "byte list"

record transport =
  reply :: "pn532_call list \<Rightarrow> pn532_call \<Rightarrow> byte list option"
  busy_ms :: "pn532_call list \<Rightarrow> pn532_call \<Rightarrow> nat"

record world =
  calls :: "pn532_call list"
  millis :: nat

definition pn532 :: "transport \<Rightarrow> pn532_call \<Rightarrow> world \<Rightarrow> byte list option \<times> world" where
  "pn532 t c w =
     (reply t (calls w) c,
      \<lparr>calls = calls w @ [c], millis = millis w + busy_ms t (calls w) c\<rparr>)"

definition delay :: "nat \<Rightarrow> world \<Rightarrow> world" where
  "delay ms w = w\<lparr>millis := millis w + ms\<rparr>"

section \<open>Mifare engine state (class \<open>MifareTool\<close>)\<close>

record SectorKeys =
  key_a :: "byte list"
  key_b :: "byte list"
  key_a_valid :: bool
  key_b_valid :: bool

record MifareTool =
  uid :: "nat \<Rightarrow> byte"
  uid_length :: nat
  sak :: byte
  atqa :: "nat \<Rightarrow> byte"
  card_type :: CardType
  total_blocks :: int
  blocks_read :: int
  dump_valid :: bool
  dump :: "nat \<Rightarrow> byte"
  sector_auth_success :: "int \<Rightarrow> bool"
  sector_keys :: "int \<Rightarrow> SectorKeys"

text \<open>The constructor zeroes every buffer.\<close>

definition MifareTool_new :: MifareTool where
  "MifareTool_new =
     \<lparr>uid = (\<lambda>_. 0), uid_length = 0, sak = 0, atqa = (\<lambda>_. 0), card_type = CARD_UNKNOWN,
      total_blocks = 0, blocks_read = 0, dump_valid = False, dump = (\<lambda>_. 0),
      sector_auth_success = (\<lambda>_. False),
      sector_keys = (\<lambda>_. \<lparr>key_a = replicate 6 0, key_b = replicate 6 0,
                           key_a_valid = False, key_b_valid = False\<rparr>)\<rparr>"

definition uid_bytes :: "MifareTool \<Rightarrow> byte list" where
  "uid_bytes e = load (uid e) 0 (uid_length e)"

definition dump_block :: "MifareTool \<Rightarrow> int \<Rightarrow> byte list" where
  "dump_block e block = load (dump e) (nat block * MIFARE_BLOCK_SIZE) MIFARE_BLOCK_SIZE"

definition default_key :: "byte list" where
  "default_key = [0xFF, 0xFF, 0xFF, 0xFF, 0xFF, 0xFF]"

section \<open>Card detection and authentication\<close>

definition identifyCardType :: "transport \<Rightarrow> MifareTool \<Rightarrow> world \<Rightarrow> CardType \<times> world" where
  "identifyCardType t e w =
     (case pn532 t (AuthenticateBlock (uid_bytes e) 64 0 default_key) w of
        (Some _, w1) \<Rightarrow> (CARD_MIFARE_4K, w1)
      | (None, w1) \<Rightarrow> (CARD_MIFARE_1K, w1))"

definition detectCard ::
  "transport \<Rightarrow> nat \<Rightarrow> MifareTool \<Rightarrow> world \<Rightarrow> bool \<times> MifareTool \<times> world" where
  "detectCard t timeout_ms e w =
     (case pn532 t (ReadPassiveTargetID timeout_ms) w of
        (None, w1) \<Rightarrow> (False, e, w1)
      | (Some uid_buffer, w1) \<Rightarrow>
          (let e1 = e\<lparr>uid_length := length uid_buffer, uid := store (uid e) 0 uid_buffer\<rparr>;
               (ct, w2) = identifyCardType t e1 w1;
               e2 = e1\<lparr>card_type := ct\<rparr>;
               w3 = delay CARD_REACTIVATE_DELAY_MS w2
           in case pn532 t (ReadPassiveTargetID CARD_RESELECT_TIMEOUT_MS) w3 of
                (None, w4) \<Rightarrow> (False, e2, w4)
              | (Some uid_buffer2, w4) \<Rightarrow>
                  (let e3 = (if length uid_buffer2 \<noteq> uid_length e2
                                 \<or> load (uid e2) 0 (length uid_buffer2) \<noteq> uid_buffer2
                             then e2\<lparr>uid_length := length uid_buffer2,
                                     uid := store (uid e2) 0 uid_buffer2\<rparr>
                             else e2);
                       e4 = (case card_type e3 of
                               CARD_MIFARE_1K \<Rightarrow>
                                 e3\<lparr>sak := 0x08, atqa := store (atqa e3) 0 [0x04, 0x00]\<rparr>
                             | CARD_MIFARE_4K \<Rightarrow>
                                 e3\<lparr>sak := 0x18, atqa := store (atqa e3) 0 [0x02, 0x00]\<rparr>
                             | CARD_UNKNOWN \<Rightarrow>
                                 e3\<lparr>sak := 0x00, atqa := store (atqa e3) 0 [0x00, 0x00]\<rparr>)
                   in (True, e4\<lparr>total_blocks := total_blocks_of (card_type e4)\<rparr>, w4))))"

definition authenticateBlock ::
  "transport \<Rightarrow> int \<Rightarrow> bool \<Rightarrow> byte list \<Rightarrow> MifareTool \<Rightarrow> world \<Rightarrow> int \<times> world" where
  "authenticateBlock t block keyA key e w =
     (case pn532 t (AuthenticateBlock (uid_bytes e) block (if keyA then 0 else 1) key) w of
        (Some _, w1) \<Rightarrow> (SUCCESS, w1)
      | (None, w1) \<Rightarrow> (ERROR_AUTH_FAILED, w1))"

definition reactivateCard :: "transport \<Rightarrow> world \<Rightarrow> bool \<times> world" where
  "reactivateCard t w =
     (case pn532 t (ReadPassiveTargetID CARD_REACTIVATE_DELAY_MS) w of
        (r, w1) \<Rightarrow> (r \<noteq> None, w1))"

text \<open>The database scan shared by \<open>readSectorWithCache\<close>, \<open>writeSector\<close> and
  \<open>writeSingleBlock\<close>: for each key string in iteration order, convert it, try it, stop at
  the first success, otherwise re-activate the card and go on.  The result is the key
  string that worked, the contents of the local \<open>key_bytes\<close> buffer and the world.\<close>

fun scan_keys ::
  "transport \<Rightarrow> int \<Rightarrow> bool \<Rightarrow> string list \<Rightarrow> byte list \<Rightarrow> MifareTool \<Rightarrow> world
     \<Rightarrow> string option \<times> byte list \<times> world" where
  "scan_keys t first_block keyA [] key_bytes e w = (None, key_bytes, w)"
| "scan_keys t first_block keyA (key_str # rest) key_bytes e w =
     (let kb = keyToBytes key_str key_bytes;
          (r, w1) = authenticateBlock t first_block keyA kb e w
      in if r = SUCCESS then (Some key_str, kb, w1)
         else scan_keys t first_block keyA rest kb e (snd (reactivateCard t w1)))"

text \<open>Steps 1 and 2 of \<open>writeSector\<close> and of \<open>writeSingleBlock\<close> (the same statements in
  both): saved Key A, saved Key B, every database key as Key A, every database key as
  Key B.  The result is \<open>auth_success\<close>.  The local \<open>key_bytes\<close> buffer is not
  initialised by the source; it is read only after a key has been stored in it.\<close>

definition write_cascade ::
  "transport \<Rightarrow> string list \<Rightarrow> int \<Rightarrow> int \<Rightarrow> MifareTool \<Rightarrow> world \<Rightarrow> bool \<times> world" where
  "write_cascade t keys sector first_block e w =
     (let (auth1, w1) =
            (if key_a_valid (sector_keys e sector) then
               (case authenticateBlock t first_block True (key_a (sector_keys e sector)) e w of
                  (r, w') \<Rightarrow> if r = SUCCESS then (True, w') else (False, snd (reactivateCard t w')))
             else (False, w));
          (auth2, w2) =
            (if \<not> auth1 \<and> key_b_valid (sector_keys e sector) then
               (case authenticateBlock t first_block False (key_b (sector_keys e sector)) e w1 of
                  (r, w') \<Rightarrow> if r = SUCCESS then (True, w') else (False, snd (reactivateCard t w')))
             else (auth1, w1))
      in if auth2 then (True, w2)
         else (case scan_keys t first_block True keys (replicate 6 0) e w2 of
                 (Some _, _, w3) \<Rightarrow> (True, w3)
               | (None, kb, w3) \<Rightarrow>
                   (case scan_keys t first_block False keys kb e w3 of
                      (found, _, w4) \<Rightarrow> (found \<noteq> None, w4))))"

section \<open>Writing (mifare\_tool.cpp)\<close>

text \<open>The block loop of \<open>writeSector\<close>, over the offsets still to visit.\<close>

fun writeSector_blocks ::
  "transport \<Rightarrow> int \<Rightarrow> int \<Rightarrow> int \<Rightarrow> int list \<Rightarrow> MifareTool \<Rightarrow> world \<Rightarrow> int \<times> world" where
  "writeSector_blocks t sector first_block block_count [] e w = (SUCCESS, w)"
| "writeSector_blocks t sector first_block block_count (block_offset # rest) e w =
     (let block = first_block + block_offset in
      if sector = 0 \<and> block_offset = 0 then
        writeSector_blocks t sector first_block block_count rest e w
      else if block_offset = block_count - 1 then
        writeSector_blocks t sector first_block block_count rest e w
      else (case pn532 t (WriteDataBlock block (dump_block e block)) w of
              (None, w1) \<Rightarrow> (ERROR_WRITE_FAILED, w1)
            | (Some _, w1) \<Rightarrow>
                writeSector_blocks t sector first_block block_count rest e
                  (delay BLOCK_WRITE_DELAY_MS w1)))"

definition writeSector ::
  "transport \<Rightarrow> string list \<Rightarrow> int \<Rightarrow> MifareTool \<Rightarrow> world \<Rightarrow> int \<times> world" where
  "writeSector t keys sector e w =
     (let first_block = getFirstBlockOfSector sector;
          block_count = getBlockCountInSector sector
      in case write_cascade t keys sector first_block e w of
           (False, w1) \<Rightarrow> (ERROR_AUTH_FAILED, w1)
         | (True, w1) \<Rightarrow>
             writeSector_blocks t sector first_block block_count
               (map int [0..<nat block_count]) e w1)"

definition writeSingleBlock ::
  "transport \<Rightarrow> string list \<Rightarrow> int \<Rightarrow> MifareTool \<Rightarrow> world \<Rightarrow> int \<times> world" where
  "writeSingleBlock t keys block e w =
     (let sector = sector_of_block block;
          first_block = getFirstBlockOfSector sector
      in case write_cascade t keys sector first_block e w of
           (False, w1) \<Rightarrow> (ERROR_AUTH_FAILED, w1)
         | (True, w1) \<Rightarrow>
             (case pn532 t (WriteDataBlock block (dump_block e block)) w1 of
                (None, w2) \<Rightarrow> (ERROR_WRITE_FAILED, w2)
              | (Some _, w2) \<Rightarrow> (SUCCESS, delay BLOCK_WRITE_DELAY_MS w2)))"

section \<open>Waiting for a card\<close>

lemma pn532_millis: "pn532 t c w = (r, w') \<Longrightarrow> millis w \<le> millis w'"
  by (auto simp: pn532_def)

lemma pn532_calls: "pn532 t c w = (r, w') \<Longrightarrow> calls w' = calls w @ [c]"
  by (auto simp: pn532_def)

lemma identifyCardType_millis: "identifyCardType t e w = (ct, w') \<Longrightarrow> millis w \<le> millis w'"
  by (auto simp: identifyCardType_def split: prod.splits option.splits dest: pn532_millis)

lemma detectCard_millis:
  assumes "detectCard t timeout_ms e w = (r, e', w')"
  shows "millis w \<le> millis w'"
proof (cases "pn532 t (ReadPassiveTargetID timeout_ms) w")
  case (Pair r1 w1)
  note first = this
  then have m1: "millis w \<le> millis w1" by (rule pn532_millis)
  show ?thesis
  proof (cases r1)
    case None
    with first assms m1 show ?thesis by (simp add: detectCard_def)
  next
    case (Some uid_buffer)
    obtain ct w2 where id:
      "identifyCardType t (e\<lparr>uid_length := length uid_buffer, uid := store (uid e) 0 uid_buffer\<rparr>) w1
         = (ct, w2)"
      by (cases "identifyCardType t
            (e\<lparr>uid_length := length uid_buffer, uid := store (uid e) 0 uid_buffer\<rparr>) w1")
    then have m2: "millis w1 \<le> millis w2" by (rule identifyCardType_millis)
    obtain r4 w4 where second:
      "pn532 t (ReadPassiveTargetID CARD_RESELECT_TIMEOUT_MS) (delay CARD_REACTIVATE_DELAY_MS w2)
         = (r4, w4)"
      by (cases "pn532 t (ReadPassiveTargetID CARD_RESELECT_TIMEOUT_MS)
            (delay CARD_REACTIVATE_DELAY_MS w2)")
    then have m4: "millis (delay CARD_REACTIVATE_DELAY_MS w2) \<le> millis w4" by (rule pn532_millis)
    have "w' = w4"
      using assms first Some id second
      by (cases r4) (simp_all add: detectCard_def Let_def split: CardType.splits)
    with m1 m2 m4 show ?thesis by (simp add: delay_def)
  qed
qed

text \<open>The loop that opens \<open>read_tag_headless\<close>, \<open>write_tag_headless\<close>,
  \<open>write_single_block_headless\<close> and \<open>clone_uid_headless\<close>:
  \<^verbatim>\<open>while (!detectCard(100)) { if (millis() - start > timeout_ms) return ...; delay(50); }\<close>
  The result is \<open>False\<close> when the loop left through the timeout.\<close>

function wait_for_card ::
  "transport \<Rightarrow> nat \<Rightarrow> nat \<Rightarrow> MifareTool \<Rightarrow> world \<Rightarrow> bool \<times> MifareTool \<times> world" where
  "wait_for_card t start timeout_ms e w =
     (case detectCard t CARD_DETECT_SHORT_TIMEOUT_MS e w of
        (True, e1, w1) \<Rightarrow> (True, e1, w1)
      | (False, e1, w1) \<Rightarrow>
          if millis w1 - start > timeout_ms then (False, e1, w1)
          else wait_for_card t start timeout_ms e1 (delay CARD_DETECT_INTERVAL_MS w1))"
  by pat_completeness auto
termination
proof (relation "measure (\<lambda>(t, start, timeout_ms, e, w). start + timeout_ms + 1 - millis w)",
    goal_cases)
  case 1
  show ?case by simp
next
  case (2 t start timeout_ms e w x1 x2 x1a x2a)
  then have "detectCard t CARD_DETECT_SHORT_TIMEOUT_MS e w = (x1, x1a, x2a)" by simp
  then have "millis w \<le> millis x2a" by (rule detectCard_millis)
  with 2 show ?case
    by (simp add: delay_def CARD_DETECT_INTERVAL_MS_def)
qed

declare wait_for_card.simps [simp del]

section \<open>Full write and single-block write (mifare\_tool.cpp)\<close>

text \<open>The sector loop of \<open>write_tag_headless\<close>, over the sectors still to write.\<close>

fun write_sectors ::
  "transport \<Rightarrow> string list \<Rightarrow> nat \<Rightarrow> nat \<Rightarrow> int list \<Rightarrow> MifareTool \<Rightarrow> world \<Rightarrow> int \<times> world" where
  "write_sectors t keys start timeout_ms [] e w = (SUCCESS, w)"
| "write_sectors t keys start timeout_ms (sector # rest) e w =
     (case writeSector t keys sector e w of
        (result, w1) \<Rightarrow>
          if result \<noteq> SUCCESS then (result, w1)
          else if millis w1 - start > timeout_ms then (ERROR_NO_TAG, w1)
          else write_sectors t keys start timeout_ms rest e w1)"

text \<open>\<open>timeout_sec * 1000UL\<close> is computed in 32-bit unsigned arithmetic.  When the card
  type check fails, the error message identifies the card once more (the default log
  level evaluates the arguments of \<open>LOG_ERROR\<close>).\<close>

definition write_tag_headless ::
  "transport \<Rightarrow> string list \<Rightarrow> int \<Rightarrow> MifareTool \<Rightarrow> world \<Rightarrow> int \<times> MifareTool \<times> world" where
  "write_tag_headless t keys timeout_sec e w =
     (if \<not> dump_valid e then (ERROR_INVALID_DATA, e, w)
      else
        let start = millis w;
            timeout_ms = nat ((timeout_sec * 1000) mod 2 ^ 32)
        in case wait_for_card t start timeout_ms e w of
             (False, e1, w1) \<Rightarrow> (ERROR_NO_TAG, e1, w1)
           | (True, e1, w1) \<Rightarrow>
               (case identifyCardType t e1 w1 of
                  (ct, w2) \<Rightarrow>
                    if ct \<noteq> card_type e1 then
                      (ERROR_INVALID_DATA, e1, snd (identifyCardType t e1 w2))
                    else
                      (case write_sectors t keys start timeout_ms
                              (map int [0..<nat (getSectorCount (card_type e1))]) e1 w2 of
                         (result, w3) \<Rightarrow> (result, e1, w3))))"

definition write_single_block_headless ::
  "transport \<Rightarrow> string list \<Rightarrow> int \<Rightarrow> MifareTool \<Rightarrow> world \<Rightarrow> int \<times> MifareTool \<times> world" where
  "write_single_block_headless t keys block e w =
     (if \<not> dump_valid e then (ERROR_INVALID_DATA, e, w)
      else if block < 0 \<or> block \<ge> total_blocks e then (ERROR_INVALID_DATA, e, w)
      else if block = UID_BLOCK then (ERROR_INVALID_DATA, e, w)
      else
        let sector = sector_of_block block;
            first_block = getFirstBlockOfSector sector;
            block_count = getBlockCountInSector sector;
            trailer_block = first_block + (block_count - 1)
        in if block = trailer_block then (ERROR_INVALID_DATA, e, w)
           else (case wait_for_card t (millis w) SINGLE_BLOCK_TIMEOUT_MS e w of
                   (False, e1, w1) \<Rightarrow> (ERROR_NO_TAG, e1, w1)
                 | (True, e1, w1) \<Rightarrow>
                     (case writeSingleBlock t keys block e1 w1 of
                        (result, w2) \<Rightarrow> (result, e1, w2))))"

section \<open>Reading (mifare\_tool.cpp)\<close>

text \<open>\<open>mifareclassic_ReadDataBlock\<close> fills a 16-byte buffer; the reply of the reader is
  cut or zero-filled to that size.\<close>

definition block_buffer :: "byte list \<Rightarrow> byte list" where
  "block_buffer bs = take MIFARE_BLOCK_SIZE (bs @ replicate MIFARE_BLOCK_SIZE 0)"

text \<open>Steps 1 to 4 of \<open>readSectorWithCache\<close>: cached Key A, cached Key B, every database
  key as Key A, every database key as Key B.  A key that works is stored in
  \<open>_sector_keys[sector]\<close>; a database key that works also becomes the cached key of the
  pass.  The result is \<open>auth_success\<close>, \<open>used_key_a\<close>, the local \<open>key_bytes\<close>, the two
  cached keys, the engine and the world.\<close>

definition set_key_a :: "int \<Rightarrow> byte list \<Rightarrow> MifareTool \<Rightarrow> MifareTool" where
  "set_key_a sector kb e =
     e\<lparr>sector_keys := (sector_keys e)
          (sector := (sector_keys e sector)\<lparr>key_a := take MIFARE_KEY_SIZE kb, key_a_valid := True\<rparr>)\<rparr>"

definition set_key_b :: "int \<Rightarrow> byte list \<Rightarrow> MifareTool \<Rightarrow> MifareTool" where
  "set_key_b sector kb e =
     e\<lparr>sector_keys := (sector_keys e)
          (sector := (sector_keys e sector)\<lparr>key_b := take MIFARE_KEY_SIZE kb, key_b_valid := True\<rparr>)\<rparr>"

definition read_cascade ::
  "transport \<Rightarrow> string list \<Rightarrow> int \<Rightarrow> int \<Rightarrow> string \<Rightarrow> string \<Rightarrow> MifareTool \<Rightarrow> world
     \<Rightarrow> bool \<times> bool \<times> byte list \<times> string \<times> string \<times> MifareTool \<times> world" where
  "read_cascade t keys sector first_block cached_key_a cached_key_b e w =
     (let (auth1, used1, kb1, e1, w1) =
            (if cached_key_a \<noteq> [] then
               (let kb = keyToBytes cached_key_a (replicate 6 0) in
                case authenticateBlock t first_block True kb e w of
                  (r, w') \<Rightarrow>
                    if r = SUCCESS then (True, True, kb, set_key_a sector kb e, w')
                    else (False, False, kb, e, snd (reactivateCard t w')))
             else (False, False, replicate 6 0, e, w));
          (auth2, used2, kb2, e2, w2) =
            (if \<not> auth1 \<and> cached_key_b \<noteq> [] then
               (let kb = keyToBytes cached_key_b kb1 in
                case authenticateBlock t first_block False kb e1 w1 of
                  (r, w') \<Rightarrow>
                    if r = SUCCESS then (True, False, kb, set_key_b sector kb e1, w')
                    else (False, used1, kb, e1, snd (reactivateCard t w')))
             else (auth1, used1, kb1, e1, w1))
      in if auth2 then (True, used2, kb2, cached_key_a, cached_key_b, e2, w2)
         else
           (case scan_keys t first_block True keys kb2 e2 w2 of
              (Some key_str, kb3, w3) \<Rightarrow>
                (True, True, kb3, key_str, cached_key_b, set_key_a sector kb3 e2, w3)
            | (None, kb3, w3) \<Rightarrow>
                (case scan_keys t first_block False keys kb3 e2 w3 of
                   (Some key_str, kb4, w4) \<Rightarrow>
                     (True, False, kb4, cached_key_a, key_str, set_key_b sector kb4 e2, w4)
                 | (None, kb4, w4) \<Rightarrow>
                     (False, used2, kb4, cached_key_a, cached_key_b, e2, w4))))"

text \<open>The block loop of \<open>readSectorWithCache\<close>, over the offsets still to read.\<close>

fun readSector_blocks ::
  "transport \<Rightarrow> int \<Rightarrow> int list \<Rightarrow> MifareTool \<Rightarrow> world \<Rightarrow> int \<times> MifareTool \<times> world" where
  "readSector_blocks t first_block [] e w = (SUCCESS, e, w)"
| "readSector_blocks t first_block (block_offset # rest) e w =
     (let block = first_block + block_offset in
      case pn532 t (ReadDataBlock block) w of
        (Some buffer, w1) \<Rightarrow>
          readSector_blocks t first_block rest
            (e\<lparr>dump := store (dump e) (nat block * MIFARE_BLOCK_SIZE) (block_buffer buffer),
               blocks_read := blocks_read e + 1\<rparr>) w1
      | (None, w1) \<Rightarrow> (ERROR_READ_FAILED, e, w1))"

text \<open>The last part of \<open>readSectorWithCache\<close>: the keys known for the sector are copied
  over the key fields of its trailer in the dump.\<close>

definition reconstruct_trailer :: "int \<Rightarrow> MifareTool \<Rightarrow> MifareTool" where
  "reconstruct_trailer sector e =
     (let first_block = getFirstBlockOfSector sector;
          block_count = getBlockCountInSector sector;
          trailer_block = first_block + (block_count - 1);
          trailer_data = nat trailer_block * MIFARE_BLOCK_SIZE;
          e1 = (if key_a_valid (sector_keys e sector) then
                  e\<lparr>dump := store (dump e) (trailer_data + KEY_A_OFFSET)
                                (take MIFARE_KEY_SIZE (key_a (sector_keys e sector)))\<rparr>
                else e)
      in if key_b_valid (sector_keys e1 sector) then
           e1\<lparr>dump := store (dump e1) (trailer_data + KEY_B_OFFSET)
                          (take MIFARE_KEY_SIZE (key_b (sector_keys e1 sector)))\<rparr>
         else e1)"

definition readSectorWithCache ::
  "transport \<Rightarrow> string list \<Rightarrow> int \<Rightarrow> string \<Rightarrow> string \<Rightarrow> MifareTool \<Rightarrow> world
     \<Rightarrow> int \<times> string \<times> string \<times> MifareTool \<times> world" where
  "readSectorWithCache t keys sector cached_key_a cached_key_b e w =
     (let first_block = getFirstBlockOfSector sector;
          block_count = getBlockCountInSector sector
      in case read_cascade t keys sector first_block cached_key_a cached_key_b e w of
           (False, _, _, cka, ckb, e1, w1) \<Rightarrow> (ERROR_AUTH_FAILED, cka, ckb, e1, w1)
         | (True, _, _, cka, ckb, e1, w1) \<Rightarrow>
             (case readSector_blocks t first_block (map int [0..<nat block_count]) e1 w1 of
                (result, e2, w2) \<Rightarrow>
                  if result \<noteq> SUCCESS then (result, cka, ckb, e2, w2)
                  else (SUCCESS, cka, ckb, reconstruct_trailer sector e2, w2)))"

text \<open>The sector loop of \<open>readAllBlocks\<close>: a sector that fails is marked and skipped.\<close>

fun read_sectors ::
  "transport \<Rightarrow> string list \<Rightarrow> int list \<Rightarrow> string \<Rightarrow> string \<Rightarrow> MifareTool \<Rightarrow> world
     \<Rightarrow> MifareTool \<times> world" where
  "read_sectors t keys [] working_key_a working_key_b e w = (e, w)"
| "read_sectors t keys (sector # rest) working_key_a working_key_b e w =
     (case readSectorWithCache t keys sector working_key_a working_key_b e w of
        (result, cka, ckb, e1, w1) \<Rightarrow>
          read_sectors t keys rest cka ckb
            (e1\<lparr>sector_auth_success := (sector_auth_success e1)(sector := (result = SUCCESS))\<rparr>)
            w1)"

definition readAllBlocks :: "transport \<Rightarrow> string list \<Rightarrow> MifareTool \<Rightarrow> world \<Rightarrow> int \<times> MifareTool \<times> world" where
  "readAllBlocks t keys e w =
     (case read_sectors t keys (map int [0..<nat (getSectorCount (card_type e))]) [] []
             (e\<lparr>blocks_read := 0\<rparr>) w of
        (e1, w1) \<Rightarrow> (if blocks_read e1 > 0 then SUCCESS else ERROR_AUTH_FAILED, e1, w1))"

definition cardTypeToString :: "CardType \<Rightarrow> string" where
  "cardTypeToString type =
     (case type of CARD_MIFARE_1K \<Rightarrow> ''Mifare Classic 1K''
                 | CARD_MIFARE_4K \<Rightarrow> ''Mifare Classic 4K''
                 | CARD_UNKNOWN \<Rightarrow> ''Unknown'')"

definition uidToString :: "MifareTool \<Rightarrow> string" where
  "uidToString e =
     toUpperCase
       (concat (map (\<lambda>i. hex2 (uid e i) @ (if int i < int (uid_length e) - 1 then '' '' else []))
                    [0..<uid_length e]))"

text \<open>\<open>read_tag_headless\<close> returns a JSON object as text, or the empty text on timeout.
  The model returns the fields the Coordinator reads (\<open>uid\<close>, \<open>card_type\<close>), or \<open>None\<close>
  for the empty text.\<close>

record mifare_json =
  json_uid :: string
  json_card_type :: string

definition read_tag_headless ::
  "transport \<Rightarrow> string list \<Rightarrow> nat \<Rightarrow> MifareTool \<Rightarrow> world
     \<Rightarrow> mifare_json option \<times> MifareTool \<times> world" where
  "read_tag_headless t keys timeout_ms e w =
     (case wait_for_card t (millis w) timeout_ms e w of
        (False, e1, w1) \<Rightarrow> (None, e1, w1)
      | (True, e1, w1) \<Rightarrow>
          (case readAllBlocks t keys (e1\<lparr>blocks_read := 0\<rparr>) w1 of
             (read_result, e2, w2) \<Rightarrow>
               (Some \<lparr>json_uid = uidToString e2,
                      json_card_type = cardTypeToString (card_type e2)\<rparr>,
                e2\<lparr>dump_valid := (read_result = SUCCESS)\<rparr>, w2)))"

section \<open>Mifare dump file codec (mifare\_tool.cpp)\<close>

text \<open>The flash file system: the text of each file, and the paths on which \<open>open\<close>
  returns no file.\<close>

record LittleFS =
  files :: "string \<rightharpoonup> string"
  open_fails :: "string \<Rightarrow> bool"

definition fs_exists :: "LittleFS \<Rightarrow> string \<Rightarrow> bool" where
  "fs_exists fs path = (files fs path \<noteq> None)"

definition NFC_MIFARE_DUMP_FOLDER :: string where
  "NFC_MIFARE_DUMP_FOLDER = ''/DUMPS/MIFARE/''"

definition NFC_SRIX_DUMP_FOLDER :: string where
  "NFC_SRIX_DUMP_FOLDER = ''/DUMPS/SRIX/''"

definition buildFilePath :: "string \<Rightarrow> string" where
  "buildFilePath filename =
     (if startsWith filename ''/'' then filename
      else NFC_MIFARE_DUMP_FOLDER
           @ (if \<not> endsWith filename ''.mfc'' then filename @ ''.mfc'' else filename))"

text \<open>One ``Page'' line of \<open>writeFileFormat\<close>: the inner loop prints each byte as two
  hexadecimal digits and a space after all but the last.\<close>

definition page_data :: "MifareTool \<Rightarrow> nat \<Rightarrow> string" where
  "page_data e block =
     concat (map (\<lambda>i. hex2 (dump e (block * MIFARE_BLOCK_SIZE + i))
                        @ (if i < MIFARE_BLOCK_SIZE - 1 then '' '' else []))
                 [0..<MIFARE_BLOCK_SIZE])"

definition page_line :: "MifareTool \<Rightarrow> nat \<Rightarrow> string" where
  "page_line e block = println (''Page '' @ String_DEC (int block) @ '': '' @ page_data e block)"

definition writeFileFormat :: "MifareTool \<Rightarrow> string" where
  "writeFileFormat e =
     println ''Filetype: Mifare Classic File''
     @ println ''Version 1''
     @ println (''Device type: '' @ cardTypeToString (card_type e))
     @ println ''# UID, ATQA and SAK are common for all formats''
     @ println (''UID: '' @ uidToString e)
     @ println (''SAK: '' @ hex2 (sak e))
     @ println (''ATQA: '' @ hex2 (atqa e 1) @ '' '' @ hex2 (atqa e 0))
     @ println ''# Memory dump''
     @ println (''Pages total: '' @ String_DEC (total_blocks e))
     @ (if blocks_read e < total_blocks e
        then println (''Pages read: '' @ String_DEC (blocks_read e)) else [])
     @ concat (map (page_line e) [0..<nat (blocks_read e)])"

definition hexStringToBytes :: "string \<Rightarrow> nat \<Rightarrow> byte list" where
  "hexStringToBytes hex max_len =
     map (\<lambda>i. byte_of_hex (substring hex (i * 2) (i * 2 + 2)))
         [0..<min (length hex div 2) max_len]"

text \<open>One iteration of the loop of \<open>parseFileFormat\<close>, on one line of the file.
  \<open>_uid_length\<close> is a \<open>uint8_t\<close>.\<close>

definition parse_line :: "string \<Rightarrow> MifareTool \<Rightarrow> MifareTool" where
  "parse_line raw e =
     (let line = trim raw in
      if startsWith line ''Device type:'' then
        (let type = trim (substring_from line 13) in
         if indexOfStr type ''1K'' \<ge> 0 then e\<lparr>card_type := CARD_MIFARE_1K\<rparr>
         else if indexOfStr type ''4K'' \<ge> 0 then e\<lparr>card_type := CARD_MIFARE_4K\<rparr>
         else e)
      else if startsWith line ''UID:'' then
        (let uid_str = remove_char CHR '':'' (remove_char CHR '' '' (trim (substring_from line 5)))
         in e\<lparr>uid_length := (length uid_str div 2) mod 256,
              uid := store (uid e) 0 (hexStringToBytes uid_str MIFARE_UID_MAX_SIZE)\<rparr>)
      else if startsWith line ''SAK:'' then
        e\<lparr>sak := byte_of_hex (trim (substring_from line 5))\<rparr>
      else if startsWith line ''ATQA:'' then
        (let atqa_str = remove_char CHR '' '' (trim (substring_from line 6))
         in e\<lparr>atqa := store (atqa e) 0 (hexStringToBytes atqa_str MIFARE_ATQA_SIZE)\<rparr>)
      else if startsWith line ''Page '' then
        (let colon_pos = indexOf line CHR '':'' in
         if colon_pos > 0 then
           (let data_str = remove_char CHR '' ''
                             (trim (substring_from line (nat (colon_pos + 1))))
            in if length data_str = MIFARE_BLOCK_SIZE * 2 then
                 e\<lparr>dump := store (dump e) (nat (blocks_read e) * MIFARE_BLOCK_SIZE)
                                (hexStringToBytes data_str MIFARE_BLOCK_SIZE),
                    blocks_read := blocks_read e + 1\<rparr>
               else e)
         else e)
      else e)"

definition parseFileFormat :: "string \<Rightarrow> MifareTool \<Rightarrow> bool \<times> MifareTool" where
  "parseFileFormat content e =
     (let e1 = fold parse_line (file_lines content) (e\<lparr>blocks_read := 0\<rparr>);
          e2 = e1\<lparr>total_blocks := total_blocks_of (card_type e1)\<rparr>
      in (blocks_read e2 > 0, e2))"

text \<open>The body of the loop of \<open>extractKeysFromDump\<close> for one sector.\<close>

definition extract_sector_keys :: "int \<Rightarrow> MifareTool \<Rightarrow> MifareTool" where
  "extract_sector_keys sector e =
     (let trailer_block = getFirstBlockOfSector sector + (getBlockCountInSector sector - 1) in
      if trailer_block \<ge> blocks_read e then e
      else
        e\<lparr>sector_keys := (sector_keys e)
             (sector := \<lparr>key_a = load (dump e) (nat trailer_block * MIFARE_BLOCK_SIZE + KEY_A_OFFSET)
                                  MIFARE_KEY_SIZE,
                         key_b = load (dump e) (nat trailer_block * MIFARE_BLOCK_SIZE + KEY_B_OFFSET)
                                  MIFARE_KEY_SIZE,
                         key_a_valid = True, key_b_valid = True\<rparr>)\<rparr>)"

definition extractKeysFromDump :: "MifareTool \<Rightarrow> MifareTool" where
  "extractKeysFromDump e =
     (if \<not> dump_valid e \<or> blocks_read e = 0 then e
      else fold extract_sector_keys (map int [0..<nat (getSectorCount (card_type e))]) e)"

definition save_file_headless :: "string \<Rightarrow> MifareTool \<Rightarrow> LittleFS \<Rightarrow> string \<times> LittleFS" where
  "save_file_headless filename e fs =
     (if \<not> dump_valid e then ([], fs)
      else let filepath = buildFilePath filename in
           if open_fails fs filepath then ([], fs)
           else (filepath, fs\<lparr>files := (files fs)(filepath \<mapsto> writeFileFormat e)\<rparr>))"

definition load_file_headless :: "string \<Rightarrow> MifareTool \<Rightarrow> LittleFS \<Rightarrow> int \<times> MifareTool" where
  "load_file_headless filename e fs =
     (let filepath = buildFilePath filename in
      if \<not> fs_exists fs filepath then (ERROR_FILE_ERROR, e)
      else if open_fails fs filepath then (ERROR_FILE_ERROR, e)
      else (case parseFileFormat (the (files fs filepath)) e of
              (True, e1) \<Rightarrow> (SUCCESS, extractKeysFromDump (e1\<lparr>dump_valid := True\<rparr>))
            | (False, e1) \<Rightarrow> (ERROR_INVALID_DATA, e1)))"

section \<open>SRIX engine state and constants (srix\_tool.h)\<close>

definition SRIX_BLOCK_COUNT :: nat where "SRIX_BLOCK_COUNT = 128"
definition SRIX_BLOCK_SIZE :: nat where "SRIX_BLOCK_SIZE = 4"
definition SRIX_TOTAL_SIZE :: nat where "SRIX_TOTAL_SIZE = 512"
definition SRIX_UID_SIZE :: nat where "SRIX_UID_SIZE = 8"
definition SRIX_MAX_BLOCK_NUM :: nat where "SRIX_MAX_BLOCK_NUM = 127"
definition TAG_DETECT_DELAY_MS :: nat where "TAG_DETECT_DELAY_MS = 50"
definition TAG_REDETECT_TIMEOUT_MS :: nat where "TAG_REDETECT_TIMEOUT_MS = 600"
definition SRIX_EEPROM_WRITE_DELAY_MS :: nat where "SRIX_EEPROM_WRITE_DELAY_MS = 15"

text \<open>The SRIX engine has its own return codes; they are prefixed here because several
  share a name with a Mifare code of another value.\<close>

definition SRIX_SUCCESS :: int where "SRIX_SUCCESS = 0"
definition SRIX_ERROR_TIMEOUT :: int where "SRIX_ERROR_TIMEOUT = - 1"
definition SRIX_ERROR_NO_DUMP :: int where "SRIX_ERROR_NO_DUMP = - 2"
definition SRIX_ERROR_INVALID_PTR :: int where "SRIX_ERROR_INVALID_PTR = - 3"
definition SRIX_ERROR_INVALID_BLOCK :: int where "SRIX_ERROR_INVALID_BLOCK = - 4"
definition SRIX_ERROR_WRITE_FAILED :: int where "SRIX_ERROR_WRITE_FAILED = - 5"
definition SRIX_ERROR_NULL_NFC :: int where "SRIX_ERROR_NULL_NFC = - 6"
definition SRIX_ERROR_FILE_NOT_FOUND :: int where "SRIX_ERROR_FILE_NOT_FOUND = - 2"
definition SRIX_ERROR_INCOMPLETE_DUMP :: int where "SRIX_ERROR_INCOMPLETE_DUMP = - 3"

text \<open>\<open>nfc_ok\<close> stands for \<open>nfc != NULL\<close>.\<close>

record SRIXTool =
  nfc_ok :: bool
  tag_read :: bool
  dump_valid_from_read :: bool
  dump_valid_from_load :: bool
  srix_dump :: "nat \<Rightarrow> byte"
  srix_uid :: "nat \<Rightarrow> byte"

definition SRIXTool_new :: SRIXTool where
  "SRIXTool_new =
     \<lparr>nfc_ok = True, tag_read = False, dump_valid_from_read = False,
      dump_valid_from_load = False, srix_dump = (\<lambda>_. 0), srix_uid = (\<lambda>_. 0)\<rparr>"

definition setDumpValidFromLoad :: "SRIXTool \<Rightarrow> SRIXTool" where
  "setDumpValidFromLoad s = s\<lparr>dump_valid_from_load := True, dump_valid_from_read := False\<rparr>"

section \<open>SRIX dump file codec (srix\_tool.cpp)\<close>

definition HEX_CHARS_PER_BYTE :: nat where "HEX_CHARS_PER_BYTE = 2"

text \<open>The text that \<open>SRIXTool::save_file_headless\<close> writes between opening and closing
  the file: the header, then one line for each of the 128 blocks.\<close>

definition srix_uid_str :: "SRIXTool \<Rightarrow> string" where
  "srix_uid_str s = toUpperCase (concat (map (\<lambda>i. hex2 (srix_uid s i)) [0..<SRIX_UID_SIZE]))"

definition srix_block_line :: "SRIXTool \<Rightarrow> nat \<Rightarrow> string" where
  "srix_block_line s block =
     toUpperCase (''['' @ hex2 (of_nat block) @ ''] ''
                  @ concat (map (\<lambda>i. hex2 (srix_dump s (block * SRIX_BLOCK_SIZE + i)))
                                [0..<SRIX_BLOCK_SIZE]))"

definition srix_file_text :: "SRIXTool \<Rightarrow> string" where
  "srix_file_text s =
     println ''Filetype: SRIX Dump''
     @ println (''UID: '' @ srix_uid_str s)
     @ println (''Blocks: '' @ String_DEC (int SRIX_BLOCK_COUNT))
     @ println (''Data size: '' @ String_DEC (int SRIX_TOTAL_SIZE))
     @ println ''# Data:''
     @ concat (map (\<lambda>block. println (srix_block_line s block)) [0..<SRIX_BLOCK_COUNT])"

text \<open>One iteration of the parsing loop of \<open>SRIXTool::load_file_headless\<close>.  The loop
  state is \<open>header_passed\<close>, \<open>blocks_loaded\<close> and the engine's buffers.
  \<open>block_num\<close> is a \<open>uint8_t\<close>.\<close>

definition srix_parse_line :: "string \<Rightarrow> bool \<times> int \<times> SRIXTool \<Rightarrow> bool \<times> int \<times> SRIXTool" where
  "srix_parse_line raw st =
     (case st of (header_passed, blocks_loaded, s) \<Rightarrow>
        let line = trim raw in
        if line = [] then st
        else if startsWith line ''UID:'' then
          (let uid_str = remove_char CHR '' '' (trim (substring_from line 5));
               idx = takeWhile (\<lambda>i. i * HEX_CHARS_PER_BYTE < length uid_str) [0..<SRIX_UID_SIZE]
           in (header_passed, blocks_loaded,
               s\<lparr>srix_uid := store (srix_uid s) 0
                    (map (\<lambda>i. byte_of_hex (substring uid_str (i * HEX_CHARS_PER_BYTE)
                                               (i * HEX_CHARS_PER_BYTE + HEX_CHARS_PER_BYTE))) idx)\<rparr>))
        else if \<not> header_passed then
          (if startsWith line ''# Data:'' then (True, blocks_loaded, s) else st)
        else if startsWith line ''['' \<and> indexOf line CHR '']'' > 0 then
          (let bracket_end = nat (indexOf line CHR '']'');
               block_num_str = substring line 1 bracket_end;
               data_str = remove_char CHR '' '' (trim (substring_from line (bracket_end + 1)));
               block_num = unat (byte_of_hex block_num_str)
           in if block_num \<ge> SRIX_BLOCK_COUNT then st
              else if length data_str \<ge> SRIX_BLOCK_SIZE * HEX_CHARS_PER_BYTE then
                (header_passed, blocks_loaded + 1,
                 s\<lparr>srix_dump := store (srix_dump s) (block_num * SRIX_BLOCK_SIZE)
                      (map (\<lambda>i. byte_of_hex (substring data_str (i * HEX_CHARS_PER_BYTE)
                                                 (i * HEX_CHARS_PER_BYTE + HEX_CHARS_PER_BYTE)))
                           [0..<SRIX_BLOCK_SIZE])\<rparr>)
              else st)
        else st)"

text \<open>\<open>SRIXTool::load_file_headless\<close>.  The buffers are cleared before parsing; the
  validity flags change only on success.\<close>

definition srix_load_file_headless :: "string \<Rightarrow> SRIXTool \<Rightarrow> LittleFS \<Rightarrow> int \<times> SRIXTool" where
  "srix_load_file_headless filename s fs =
     (if \<not> nfc_ok s then (SRIX_ERROR_TIMEOUT, s)
      else
        let filepath = NFC_SRIX_DUMP_FOLDER @ filename
                       @ (if \<not> endsWith filename ''.srix'' then ''.srix'' else [])
        in if \<not> fs_exists fs filepath then (SRIX_ERROR_FILE_NOT_FOUND, s)
           else if open_fails fs filepath then (SRIX_ERROR_TIMEOUT, s)
           else
             (case fold srix_parse_line (file_lines (the (files fs filepath)))
                     (False, 0, s\<lparr>srix_dump := (\<lambda>_. 0), srix_uid := (\<lambda>_. 0)\<rparr>) of
                (header_passed, blocks_loaded, s1) \<Rightarrow>
                  if blocks_loaded < int SRIX_BLOCK_COUNT then (SRIX_ERROR_INCOMPLETE_DUMP, s1)
                  else (SRIX_SUCCESS,
                        s1\<lparr>dump_valid_from_load := True, dump_valid_from_read := False\<rparr>)))"

section \<open>Coordinator state (class \<open>NFCManager\<close>)\<close>

datatype Protocol =
  PROTOCOL_UNKNOWN | PROTOCOL_SRIX | PROTOCOL_MIFARE_CLASSIC | PROTOCOL_NTAG | PROTOCOL_DESFIRE

text \<open>\<open>TagInfo\<close>.  The source overlays \<open>data.srix.dump[512]\<close> and
  \<open>data.mifare_classic.{dump[1024], sectors}\<close> in a union; the model keeps one field for
  each member and fills the one of the record's protocol.\<close>

record TagInfo =
  protocol :: Protocol
  protocol_name :: string
  ti_uid :: "nat \<Rightarrow> byte"
  ti_uid_length :: nat
  valid :: bool
  timestamp :: nat
  ti_srix_dump :: "byte list"
  ti_mifare_dump :: "byte list"
  ti_mifare_sectors :: nat

record Result =
  success :: bool
  message :: string
  code :: int

definition MAX_UID_LENGTH :: nat where "MAX_UID_LENGTH = 10"
definition SRIX_DUMP_SIZE :: nat where "SRIX_DUMP_SIZE = 512"
definition MIFARE_1K_DUMP_SIZE :: nat where "MIFARE_1K_DUMP_SIZE = 1024"

record NFCManager =
  srix_handler :: "SRIXTool option"
  mifare_handler :: "MifareTool option"
  initialized :: bool
  current_protocol :: Protocol
  current_tag :: TagInfo

text \<open>\<open>beginMifare\<close>: lazy construction of the Mifare engine.  \<open>MifareTool::begin\<close> asks
  the PN532 for its firmware version and fails when there is no answer.\<close>

definition MifareTool_begin :: "transport \<Rightarrow> world \<Rightarrow> bool \<times> world" where
  "MifareTool_begin t w = (case pn532 t GetFirmwareVersion w of (r, w1) \<Rightarrow> (r \<noteq> None, w1))"

definition beginMifare :: "transport \<Rightarrow> NFCManager \<Rightarrow> world \<Rightarrow> bool \<times> NFCManager \<times> world" where
  "beginMifare t m w =
     (if mifare_handler m \<noteq> None then (True, m, w)
      else case MifareTool_begin t w of
             (False, w1) \<Rightarrow> (False, m\<lparr>mifare_handler := None\<rparr>, w1)
           | (True, w1) \<Rightarrow> (True, m\<lparr>mifare_handler := Some MifareTool_new\<rparr>, w1))"

definition hasValidData :: "NFCManager \<Rightarrow> bool" where
  "hasValidData m = valid (current_tag m)"

section \<open>Selective Mifare write (nfc\_manager.cpp)\<close>

text \<open>The loop of \<open>writeMifareBlocksSelective\<close> over the block numbers still to visit
  (a \<open>std::vector<uint8_t>\<close>).  It either returns a failure \<open>Result\<close> from inside
  (\<open>Inl\<close>) or runs to the end with \<open>blocks_written\<close> (\<open>Inr\<close>).\<close>

fun selective_loop ::
  "transport \<Rightarrow> string list \<Rightarrow> byte list \<Rightarrow> int \<Rightarrow> MifareTool \<Rightarrow> world
     \<Rightarrow> (Result + int) \<times> MifareTool \<times> world" where
  "selective_loop t keys [] blocks_written e w = (Inr blocks_written, e, w)"
| "selective_loop t keys (block_num # rest) blocks_written e w =
     (if block_num \<ge> 64 then selective_loop t keys rest blocks_written e w
      else
        (case write_single_block_headless t keys (uint block_num) e w of
           (write_result, e1, w1) \<Rightarrow>
             if write_result = SUCCESS then
               selective_loop t keys rest (blocks_written + 1) e1 w1
             else
               (Inl \<lparr>success = False,
                     message = ''Failed at block '' @ String_DEC (uint block_num)
                               @ '' (code='' @ String_DEC write_result @ '')'',
                     code = write_result\<rparr>, e1, w1)))"

definition writeMifareBlocksSelective ::
  "transport \<Rightarrow> string list \<Rightarrow> byte list \<Rightarrow> NFCManager \<Rightarrow> world
     \<Rightarrow> Result \<times> NFCManager \<times> world" where
  "writeMifareBlocksSelective t keys block_numbers m w =
     (if block_numbers = [] then
        (\<lparr>success = False, message = ''No blocks specified'', code = - 3\<rparr>, m, w)
      else if \<not> hasValidData m then
        (\<lparr>success = False, message = ''No loaded data to write from'', code = - 2\<rparr>, m, w)
      else
        (case beginMifare t m w of
           (False, m1, w1) \<Rightarrow>
             (\<lparr>success = False, message = ''Failed to initialize Mifare handler'', code = - 1\<rparr>,
              m1, w1)
         | (True, m1, w1) \<Rightarrow>
             (case selective_loop t keys block_numbers 0 (the (mifare_handler m1)) w1 of
                (Inl result, e2, w2) \<Rightarrow> (result, m1\<lparr>mifare_handler := Some e2\<rparr>, w2)
              | (Inr blocks_written, e2, w2) \<Rightarrow>
                  (\<lparr>success = True,
                    message = ''Successfully wrote '' @ String_DEC blocks_written @ '' blocks'',
                    code = 0\<rparr>,
                   m1\<lparr>mifare_handler := Some e2\<rparr>, w2))))"

section \<open>SRIX: detection and full write (srix\_tool.cpp)\<close>

text \<open>The polling loop of \<open>waitForTagHeadless\<close>:
  \<^verbatim>\<open>while ((millis() - startTime) < timeout_ms) { if (select) return true; delay(50); }\<close>\<close>

function waitForTagHeadless_loop :: "transport \<Rightarrow> nat \<Rightarrow> nat \<Rightarrow> world \<Rightarrow> bool \<times> world" where
  "waitForTagHeadless_loop t startTime timeout_ms w =
     (if millis w - startTime < timeout_ms then
        (case pn532 t SRIX_initiate_select w of
           (Some _, w1) \<Rightarrow> (True, w1)
         | (None, w1) \<Rightarrow>
             waitForTagHeadless_loop t startTime timeout_ms (delay TAG_DETECT_DELAY_MS w1))
      else (False, w))"
  by pat_completeness auto
termination
proof (relation "measure (\<lambda>(t, startTime, timeout_ms, w). startTime + timeout_ms - millis w)",
    goal_cases)
  case 1
  show ?case by simp
next
  case (2 t startTime timeout_ms w x1 x2)
  then have "millis w \<le> millis x2" by (auto dest: pn532_millis [OF sym])
  with 2 show ?case by (simp add: delay_def TAG_DETECT_DELAY_MS_def)
qed

declare waitForTagHeadless_loop.simps [simp del]

definition waitForTagHeadless :: "transport \<Rightarrow> nat \<Rightarrow> SRIXTool \<Rightarrow> world \<Rightarrow> bool \<times> world" where
  "waitForTagHeadless t timeout_ms s w =
     (if \<not> nfc_ok s then (False, w) else waitForTagHeadless_loop t (millis w) timeout_ms w)"

text \<open>The block loop of the SRIX \<open>write_tag_headless\<close>, over the blocks still to write.
  \<open>blocks_written\<close> is a \<open>uint8_t\<close>.\<close>

fun srix_write_blocks ::
  "transport \<Rightarrow> SRIXTool \<Rightarrow> nat list \<Rightarrow> byte \<Rightarrow> world \<Rightarrow> int \<times> world" where
  "srix_write_blocks t s [] blocks_written w = (SRIX_SUCCESS, w)"
| "srix_write_blocks t s (b # rest) blocks_written w =
     (case pn532 t (SRIX_write_block b (load (srix_dump s) (b * SRIX_BLOCK_SIZE) SRIX_BLOCK_SIZE)) w of
        (None, w1) \<Rightarrow> (SRIX_ERROR_WRITE_FAILED, w1)
      | (Some _, w1) \<Rightarrow>
          (case waitForTagHeadless t TAG_REDETECT_TIMEOUT_MS s
                  (delay SRIX_EEPROM_WRITE_DELAY_MS w1) of
             (False, w2) \<Rightarrow> (uint (blocks_written + 1), w2)
           | (True, w2) \<Rightarrow> srix_write_blocks t s rest (blocks_written + 1) w2))"

text \<open>\<open>SRIXTool::write_tag_headless\<close>.\<close>

definition srix_write_tag_headless :: "transport \<Rightarrow> int \<Rightarrow> SRIXTool \<Rightarrow> world \<Rightarrow> int \<times> world" where
  "srix_write_tag_headless t timeout_seconds s w =
     (if \<not> nfc_ok s then (SRIX_ERROR_NULL_NFC, w)
      else if \<not> dump_valid_from_read s \<and> \<not> dump_valid_from_load s then (SRIX_ERROR_NO_DUMP, w)
      else (case waitForTagHeadless t (nat ((timeout_seconds * 1000) mod 2 ^ 32)) s w of
              (False, w1) \<Rightarrow> (SRIX_ERROR_TIMEOUT, w1)
            | (True, w1) \<Rightarrow> srix_write_blocks t s [0..<SRIX_BLOCK_COUNT] 0 w1))"

section \<open>Coordinator: SRIX write (nfc\_manager.cpp)\<close>

text \<open>\<open>beginSRIX\<close>: lazy construction of the SRIX engine; its constructor initialises
  the PN532.  The handler is dropped when it has no reader object.\<close>

definition beginSRIX :: "transport \<Rightarrow> NFCManager \<Rightarrow> world \<Rightarrow> bool \<times> NFCManager \<times> world" where
  "beginSRIX t m w =
     (if srix_handler m \<noteq> None then (True, m, w)
      else case pn532 t PN532_init w of
             (_, w1) \<Rightarrow>
               if \<not> nfc_ok SRIXTool_new then (False, m\<lparr>srix_handler := None\<rparr>, w1)
               else (True, m\<lparr>srix_handler := Some SRIXTool_new\<rparr>, w1))"

text \<open>The three statements that \<open>writeSRIX\<close>, \<open>saveSRIX\<close> and \<open>restoreCurrentTag\<close>
  use to hand a record to the engine: copy the 512-byte dump, copy 8 UID bytes, mark the
  dump as loaded.\<close>

definition copy_to_srix_handler :: "TagInfo \<Rightarrow> SRIXTool \<Rightarrow> SRIXTool" where
  "copy_to_srix_handler info h =
     setDumpValidFromLoad
       (h\<lparr>srix_dump := store (srix_dump h) 0 (take SRIX_DUMP_SIZE (ti_srix_dump info)),
          srix_uid := store (srix_uid h) 0 (load (ti_uid info) 0 8)\<rparr>)"

definition writeSRIX ::
  "transport \<Rightarrow> TagInfo \<Rightarrow> int \<Rightarrow> NFCManager \<Rightarrow> world \<Rightarrow> Result \<times> NFCManager \<times> world" where
  "writeSRIX t info timeout_sec m w =
     (if \<not> initialized m then
        (\<lparr>success = False, message = ''NFCManager not initialized (call begin() first)'',
          code = - 1\<rparr>, m, w)
      else
        (case beginSRIX t m w of
           (False, m1, w1) \<Rightarrow>
             (\<lparr>success = False, message = ''Failed to initialize SRIX handler'', code = - 1\<rparr>,
              m1, w1)
         | (True, m1, w1) \<Rightarrow>
             if \<not> valid info \<or> protocol info \<noteq> PROTOCOL_SRIX then
               (\<lparr>success = False, message = ''Invalid SRIX data'', code = - 2\<rparr>, m1, w1)
             else
               (let h1 = copy_to_srix_handler info (the (srix_handler m1));
                    m2 = m1\<lparr>srix_handler := Some h1\<rparr>
                in case srix_write_tag_headless t timeout_sec h1 w1 of
                     (write_result, w2) \<Rightarrow>
                       if write_result = 0 then
                         (\<lparr>success = True, message = ''SRIX tag written and verified'',
                           code = 0\<rparr>, m2, w2)
                       else if write_result > 0 then
                         (\<lparr>success = False,
                           message = ''Tag lost at block: '' @ String_DEC write_result,
                           code = write_result\<rparr>, m2, w2)
                       else
                         (\<lparr>success = False,
                           message = (if write_result = - 1 then ''Timeout waiting for tag''
                                      else if write_result = - 2 then ''No data loaded''
                                      else if write_result = - 5 then ''Write failed''
                                      else if write_result = - 6 then ''NFC hardware error''
                                      else ''Unknown error''),
                           code = write_result\<rparr>, m2, w2))))"

section \<open>Coordinator: Mifare read and load (nfc\_manager.cpp)\<close>

definition stringToUid :: "string \<Rightarrow> (nat \<Rightarrow> byte) \<Rightarrow> (nat \<Rightarrow> byte) \<times> nat" where
  "stringToUid str old_uid =
     (let clean = remove_char CHR '' '' (remove_char CHR '':'' str);
          len = (length clean div 2) mod 256;
          len' = (if len > MAX_UID_LENGTH then MAX_UID_LENGTH else len)
      in (store old_uid 0
            (map (\<lambda>i. byte_of_hex (substring clean (i * 2) (i * 2 + 2))) [0..<len']), len'))"

text \<open>\<open>readMifare\<close>.  \<open>parse_ok\<close> stands for the outcome of the JSON library on the
  text returned by the engine.  Both branches on the card type copy
  \<open>MIFARE_1K_DUMP_SIZE\<close> bytes and set 16 sectors.\<close>

definition readMifare ::
  "transport \<Rightarrow> string list \<Rightarrow> bool \<Rightarrow> TagInfo \<Rightarrow> int \<Rightarrow> NFCManager \<Rightarrow> world
     \<Rightarrow> Result \<times> TagInfo \<times> NFCManager \<times> world" where
  "readMifare t keys parse_ok info timeout_sec m w =
     (if \<not> initialized m then
        (\<lparr>success = False, message = ''NFCManager not initialized (call begin() first)'',
          code = - 1\<rparr>, info, m, w)
      else
        (case beginMifare t m w of
           (False, m1, w1) \<Rightarrow>
             (\<lparr>success = False, message = ''Failed to initialize Mifare handler'', code = - 1\<rparr>,
              info, m1, w1)
         | (True, m1, w1) \<Rightarrow>
             (case read_tag_headless t keys (nat ((timeout_sec * 1000) mod 2 ^ 32))
                     (the (mifare_handler m1)) w1 of
                (None, e2, w2) \<Rightarrow>
                  (\<lparr>success = False, message = ''Timeout: No Mifare tag found'', code = - 1\<rparr>,
                   info, m1\<lparr>mifare_handler := Some e2\<rparr>, w2)
              | (Some doc, e2, w2) \<Rightarrow>
                  if \<not> parse_ok then
                    (\<lparr>success = False, message = ''Failed to parse tag data'', code = - 2\<rparr>,
                     info, m1\<lparr>mifare_handler := Some e2\<rparr>, w2)
                  else
                    (let (u, ul) = stringToUid (remove_char CHR '' '' (json_uid doc)) (ti_uid info);
                         info1 = info\<lparr>protocol := PROTOCOL_MIFARE_CLASSIC,
                                       protocol_name := json_card_type doc,
                                       valid := True, timestamp := millis w2,
                                       ti_uid := u, ti_uid_length := ul\<rparr>;
                         info2 = (if card_type e2 = CARD_MIFARE_1K then
                                    info1\<lparr>ti_mifare_dump := load (dump e2) 0 MIFARE_1K_DUMP_SIZE,
                                           ti_mifare_sectors := 16\<rparr>
                                  else
                                    info1\<lparr>ti_mifare_dump := load (dump e2) 0 MIFARE_1K_DUMP_SIZE,
                                           ti_mifare_sectors := 16\<rparr>)
                     in (\<lparr>success = True, message = ''Mifare tag read successfully'', code = 0\<rparr>,
                         info2,
                         m1\<lparr>mifare_handler := Some e2, current_tag := info2,
                            current_protocol := PROTOCOL_MIFARE_CLASSIC\<rparr>, w2)))))"

text \<open>\<open>loadMifare\<close>.  A missing engine is created first; when its \<open>begin\<close> fails the
  engine object stays in place.\<close>

definition loadMifare ::
  "transport \<Rightarrow> LittleFS \<Rightarrow> TagInfo \<Rightarrow> string \<Rightarrow> NFCManager \<Rightarrow> world
     \<Rightarrow> Result \<times> TagInfo \<times> NFCManager \<times> world" where
  "loadMifare t fs info filename m w =
     (if \<not> initialized m then
        (\<lparr>success = False, message = ''NFCManager not initialized'', code = - 1\<rparr>, info, m, w)
      else
        (let (created_ok, m1, w1) =
               (if mifare_handler m = None then
                  (case MifareTool_begin t w of
                     (ok, w') \<Rightarrow> (ok, m\<lparr>mifare_handler := Some MifareTool_new\<rparr>, w'))
                else (True, m, w))
         in if \<not> created_ok then
              (\<lparr>success = False, message = ''Failed to create Mifare handler'', code = - 1\<rparr>,
               info, m1, w1)
            else
              (case load_file_headless filename (the (mifare_handler m1)) fs of
                 (load_result, e2) \<Rightarrow>
                   if load_result \<noteq> SUCCESS then
                     (\<lparr>success = False,
                       message = (if load_result = ERROR_FILE_ERROR
                                  then ''File not found or cannot open''
                                  else if load_result = ERROR_INVALID_DATA
                                  then ''Invalid or corrupt file'' else ''Unknown error''),
                       code = load_result\<rparr>,
                      info, m1\<lparr>mifare_handler := Some e2\<rparr>, w1)
                   else
                     (let info1 = info\<lparr>protocol := PROTOCOL_MIFARE_CLASSIC, valid := True,
                                       timestamp := millis w1,
                                       ti_uid_length := uid_length e2,
                                       ti_uid := store (ti_uid info) 0 (load (uid e2) 0 (uid_length e2)),
                                       ti_mifare_dump := load (dump e2) 0 MIFARE_1K_DUMP_SIZE\<rparr>;
                          info2 = (if card_type e2 = CARD_MIFARE_1K then
                                     info1\<lparr>protocol_name := ''Mifare Classic 1K'',
                                            ti_mifare_sectors := 16\<rparr>
                                   else
                                     info1\<lparr>protocol_name := ''Mifare Classic 4K'',
                                            ti_mifare_sectors := 40\<rparr>)
                      in (\<lparr>success = True, message = ''File loaded successfully'', code = 0\<rparr>,
                          info2,
                          m1\<lparr>mifare_handler := Some e2, current_tag := info2,
                             current_protocol := PROTOCOL_MIFARE_CLASSIC\<rparr>, w1)))))"

section \<open>Call-log predicates\<close>

text \<open>A block is protected when it is block 0 or the trailer of one of the 40 sectors.
  A call is harmless when it is not a data write to a protected block.
  \<open>only_calls P w w'\<close>: the reader calls recorded in \<open>w'\<close> are those of \<open>w\<close> followed
  by calls that all satisfy \<open>P\<close>.\<close>

definition protected_block :: "int \<Rightarrow> bool" where
  "protected_block b =
     (b = UID_BLOCK \<or> (\<exists>s. 0 \<le> s \<and> s < MIFARE_4K_SECTORS \<and> b = trailer_block_of s))"

definition harmless :: "pn532_call \<Rightarrow> bool" where
  "harmless c = (case c of WriteDataBlock b d \<Rightarrow> \<not> protected_block b | _ \<Rightarrow> True)"

definition only_calls :: "(pn532_call \<Rightarrow> bool) \<Rightarrow> world \<Rightarrow> world \<Rightarrow> bool" where
  "only_calls P w w' = (\<exists>new. calls w' = calls w @ new \<and> list_all P new)"

definition is_srix_write :: "pn532_call \<Rightarrow> bool" where
  "is_srix_write c = (case c of SRIX_write_block b d \<Rightarrow> True | _ \<Rightarrow> False)"

text \<open>The reader accepts a call when it answers it with success at some moment.\<close>

definition accepts :: "transport \<Rightarrow> pn532_call \<Rightarrow> bool" where
  "accepts t c = (\<exists>hist. reply t hist c \<noteq> None)"

section \<open>Notions of the specification\<close>

text \<open>Text groups joined by single spaces.\<close>

fun space_separated :: "string list \<Rightarrow> string" where
  "space_separated [] = []"
| "space_separated [g] = g"
| "space_separated (g # h # gs) = g @ '' '' @ space_separated (h # gs)"

section \<open>Sample environments and states\<close>

text \<open>A reader that never finds a card, a clock at zero, and engines holding a complete
  1K and a complete 4K dump as \<open>load_file_headless\<close> leaves them.\<close>

definition silent_transport :: transport where
  "silent_transport = \<lparr>reply = (\<lambda>_ _. None), busy_ms = (\<lambda>_ _. 0)\<rparr>"

definition world0 :: world where
  "world0 = \<lparr>calls = [], millis = 0\<rparr>"

definition loaded_1k :: MifareTool where
  "loaded_1k = MifareTool_new\<lparr>uid_length := 4, card_type := CARD_MIFARE_1K, total_blocks := 64,
                               blocks_read := 64, dump_valid := True\<rparr>"

definition loaded_4k :: MifareTool where
  "loaded_4k = MifareTool_new\<lparr>uid_length := 4, card_type := CARD_MIFARE_4K, total_blocks := 256,
                               blocks_read := 256, dump_valid := True\<rparr>"

definition mifare_tag :: "string \<Rightarrow> nat \<Rightarrow> TagInfo" where
  "mifare_tag name sectors =
     \<lparr>protocol = PROTOCOL_MIFARE_CLASSIC, protocol_name = name, ti_uid = (\<lambda>_. 0),
      ti_uid_length = 4, valid = True, timestamp = 0, ti_srix_dump = [],
      ti_mifare_dump = replicate 1024 0, ti_mifare_sectors = sectors\<rparr>"

definition manager_with :: "MifareTool \<Rightarrow> TagInfo \<Rightarrow> NFCManager" where
  "manager_with e tag =
     \<lparr>srix_handler = None, mifare_handler = Some e, initialized = True,
      current_protocol = PROTOCOL_MIFARE_CLASSIC, current_tag = tag\<rparr>"

text \<open>A reader with a 1K card on which only sector 0 opens, to the factory key.\<close>

definition sector0_transport :: transport where
  "sector0_transport =
     \<lparr>reply = (\<lambda>history call.
         case call of
           ReadPassiveTargetID _ \<Rightarrow> Some [0xDE, 0xAD, 0xBE, 0xEF]
         | AuthenticateBlock u block key_type key \<Rightarrow>
             if block = 0 \<and> key = default_key then Some [] else None
         | WriteDataBlock block data \<Rightarrow> Some []
         | _ \<Rightarrow> None),
      busy_ms = (\<lambda>_ _. 1)\<rparr>"

text \<open>An SRIX reader on which the tag answers until \<open>n\<close> blocks have been written, an
  SRIX record, and a coordinator that holds a fresh SRIX engine.\<close>

definition vanishing_tag_transport :: "nat \<Rightarrow> transport" where
  "vanishing_tag_transport n =
     \<lparr>reply = (\<lambda>history call.
         case call of
           SRIX_initiate_select \<Rightarrow>
             if length (filter is_srix_write history) < n then Some [] else None
         | SRIX_write_block b d \<Rightarrow> Some []
         | _ \<Rightarrow> None),
      busy_ms = (\<lambda>_ _. 1)\<rparr>"

definition srix_tag :: TagInfo where
  "srix_tag =
     \<lparr>protocol = PROTOCOL_SRIX, protocol_name = ''SRIX4K'', ti_uid = (\<lambda>_. 0),
      ti_uid_length = 8, valid = True, timestamp = 0, ti_srix_dump = replicate 512 0,
      ti_mifare_dump = [], ti_mifare_sectors = 0\<rparr>"

definition srix_manager :: NFCManager where
  "srix_manager =
     \<lparr>srix_handler = Some SRIXTool_new, mifare_handler = None, initialized = True,
      current_protocol = PROTOCOL_SRIX, current_tag = srix_tag\<rparr>"

text \<open>A reader with a card in factory state: every sector opens to the factory key as
  Key A, a trailer reads back with its keys masked by zeros and access bits
  \<open>FF 07 80 69\<close>, a data block reads back as sixteen copies of its number.\<close>

definition factory_card_transport :: transport where
  "factory_card_transport =
     \<lparr>reply = (\<lambda>history call.
         case call of
           ReadPassiveTargetID _ \<Rightarrow> Some [0x04, 0xA1, 0xB2, 0xC3]
         | AuthenticateBlock u block key_type key \<Rightarrow>
             if key_type = 0 \<and> key = default_key then Some [] else None
         | ReadDataBlock block \<Rightarrow>
             Some (if block = trailer_block_of (sector_of_block block)
                   then [0, 0, 0, 0, 0, 0, 0xFF, 0x07, 0x80, 0x69, 0, 0, 0, 0, 0, 0]
                   else replicate 16 (of_int block))
         | WriteDataBlock block data \<Rightarrow> Some []
         | _ \<Rightarrow> None),
      busy_ms = (\<lambda>_ _. 1)\<rparr>"

text \<open>An engine as a read of a 1K card leaves it: \<open>identifyCardType\<close> has set SAK
  \<open>08\<close> and ATQA \<open>04 00\<close>, and all 64 blocks are in the dump.\<close>

definition read_1k_engine :: MifareTool where
  "read_1k_engine =
     MifareTool_new\<lparr>uid := store (\<lambda>_. 0) 0 [0x04, 0xA1, 0xB2, 0xC3], uid_length := 4,
                    sak := 0x08, atqa := store (\<lambda>_. 0) 0 [0x04, 0x00],
                    card_type := CARD_MIFARE_1K, total_blocks := 64, blocks_read := 64,
                    dump_valid := True\<rparr>"

text \<open>A file system that holds the file written from a complete 4K dump.\<close>

definition fs_card4k :: LittleFS where
  "fs_card4k = \<lparr>files = [''/DUMPS/MIFARE/card4k.mfc'' \<mapsto> writeFileFormat loaded_4k],
                open_fails = (\<lambda>_. False)\<rparr>"

text \<open>A file system that holds an SRIX dump file whose 128 data lines all give block 0.\<close>

definition fs_duplicates :: LittleFS where
  "fs_duplicates =
     \<lparr>files = [''/DUMPS/SRIX/dup.srix'' \<mapsto>
                 println ''Filetype: SRIX Dump'' @ println ''UID: D002123456789ABC''
                 @ println ''# Data:'' @ concat (replicate 128 (println ''[00] DEADBEEF''))],
      open_fails = (\<lambda>_. False)\<rparr>"

section \<open>Addressing\<close>

lemmas geometry_defs =
  getFirstBlockOfSector_def getBlockCountInSector_def sector_of_block_def
  SMALL_SECTOR_COUNT_def LARGE_SECTOR_BOUNDARY_def BLOCKS_PER_SMALL_SECTOR_def
  BLOCKS_PER_LARGE_SECTOR_def

lemma c_div_nonneg: "0 \<le> a \<Longrightarrow> 0 < b \<Longrightarrow> c_div a b = a div b"
  by (cases "a = 0") (simp_all add: c_div_def)

lemma sector_of_block_small:
  assumes "0 \<le> b" and "b < 128"
  shows "sector_of_block b = b div 4"
  using assms by (simp add: geometry_defs c_div_nonneg)

lemma sector_of_block_large:
  assumes "128 \<le> b"
  shows "sector_of_block b = 32 + (b - 128) div 16"
  using assms by (simp add: geometry_defs c_div_nonneg)

text \<open>
  C4. For every block \<open>b\<close> of a card (\<open>0 \<le> b < total_blocks\<close>, with 64 blocks on a 1K
  card and 256 on a 4K card) the sector computed for \<open>b\<close> contains \<open>b\<close>:
  \<open>first(sector) \<le> b < first(sector) + count(sector)\<close>.  Blocks 0--127 lie in sectors
  0--31, which have 4 blocks each; blocks 128--255 lie in sectors 32--39, which have 16
  blocks each.  The two functions depend on the sector number only.
\<close>

theorem addressing_bijection:
  assumes "0 \<le> b" and "b < total_blocks_of type"
  shows "getFirstBlockOfSector (sector_of_block b) \<le> b
       \<and> b < getFirstBlockOfSector (sector_of_block b) + getBlockCountInSector (sector_of_block b)
       \<and> (b < 128 \<longrightarrow> 0 \<le> sector_of_block b \<and> sector_of_block b \<le> 31
              \<and> getBlockCountInSector (sector_of_block b) = 4
              \<and> getFirstBlockOfSector (sector_of_block b) = 4 * sector_of_block b)
       \<and> (128 \<le> b \<longrightarrow> 32 \<le> sector_of_block b \<and> sector_of_block b \<le> 39
              \<and> getBlockCountInSector (sector_of_block b) = 16
              \<and> getFirstBlockOfSector (sector_of_block b) = 128 + 16 * (sector_of_block b - 32))"
proof (cases "b < 128")
  case True
  with assms(1) have s: "sector_of_block b = b div 4"
    by (rule sector_of_block_small)
  from True assms(1) have "b div 4 < 32" "0 \<le> b div 4" by simp_all
  with True s show ?thesis
    by (simp add: getFirstBlockOfSector_def getBlockCountInSector_def SMALL_SECTOR_COUNT_def
        BLOCKS_PER_SMALL_SECTOR_def) presburger
next
  case False
  then have s: "sector_of_block b = 32 + (b - 128) div 16"
    by (simp add: sector_of_block_large)
  from assms(2) have "b < 256"
    by (simp add: total_blocks_of_def MIFARE_1K_BLOCKS_def MIFARE_4K_BLOCKS_def split: if_splits)
  with False have "(b - 128) div 16 < 8" "0 \<le> (b - 128) div 16" by simp_all
  with False s show ?thesis
    by (simp add: getFirstBlockOfSector_def getBlockCountInSector_def SMALL_SECTOR_COUNT_def
        LARGE_SECTOR_BOUNDARY_def BLOCKS_PER_LARGE_SECTOR_def) presburger
qed

theorem addressing_bijection_witness:
  "(0::int) \<le> 200 \<and> 200 < total_blocks_of CARD_MIFARE_4K
   \<and> sector_of_block 200 = 36 \<and> getFirstBlockOfSector (sector_of_block 200) = 192
   \<and> getBlockCountInSector (sector_of_block 200) = 16"
  using addressing_bijection [of 200 CARD_MIFARE_4K]
  by (simp add: total_blocks_of_def MIFARE_4K_BLOCKS_def geometry_defs c_div_def)

section \<open>Protected blocks\<close>

lemma sector_of_trailer:
  assumes "0 \<le> s" and "s < 40"
  shows "sector_of_block (trailer_block_of s) = s"
proof (cases "s < 32")
  case True
  with assms have "trailer_block_of s = 4 * s + 3"
    by (simp add: trailer_block_of_def geometry_defs)
  moreover from True assms have "sector_of_block (4 * s + 3) = (4 * s + 3) div 4"
    by (intro sector_of_block_small) simp_all
  ultimately show ?thesis by simp
next
  case False
  with assms have tb: "trailer_block_of s = 128 + 16 * (s - 32) + 15"
    by (simp add: trailer_block_of_def geometry_defs)
  from False
  have "sector_of_block (128 + 16 * (s - 32) + 15) = 32 + (128 + 16 * (s - 32) + 15 - 128) div 16"
    by (intro sector_of_block_large) simp
  with tb show ?thesis by simp
qed

lemma selective_loop_append:
  "selective_loop t keys pre n e w = (Inr n1, e1, w1) \<Longrightarrow>
   selective_loop t keys (pre @ rest) n e w = selective_loop t keys rest n1 e1 w1"
  by (induction pre arbitrary: n e w) (auto split: prod.splits if_splits)

lemma write_single_block_protected:
  assumes "block = UID_BLOCK
           \<or> (\<exists>s. 0 \<le> s \<and> s < MIFARE_4K_SECTORS \<and> block = trailer_block_of s)"
  shows "write_single_block_headless t keys block e w = (ERROR_INVALID_DATA, e, w)"
proof -
  from assms have "block = UID_BLOCK \<or> block = trailer_block_of (sector_of_block block)"
    by (auto simp: MIFARE_4K_SECTORS_def sector_of_trailer)
  then show ?thesis
    by (auto simp: write_single_block_headless_def Let_def trailer_block_of_def)
qed

lemma String_DEC_minus6: "String_DEC ERROR_INVALID_DATA = ''-6''"
  by (simp add: String_DEC_def ERROR_INVALID_DATA_def dec_digits.simps)

text \<open>
  C1 (as the code has it).  A single-block write aimed at block 0 or at the trailer block
  of any of the 40 sectors returns \<open>ERROR_INVALID_DATA\<close> and leaves the engine and the
  reader untouched: no detection, authentication or write is recorded.  In a selective
  write, when the blocks before such a block went through and its number is below 64,
  the batch stops there with ``Failed at block b (code=-6)'' and code \<open>-6\<close>, in the
  state reached before that block: the blocks listed after it are never attempted.
  When its number is 64 or more (the trailers of sectors 16 to 39), the loop passes over
  it before the engine is asked, and the batch goes on with the blocks listed after it.
\<close>

theorem protected_block_rejected:
  assumes prot: "block = UID_BLOCK
                 \<or> (\<exists>s. 0 \<le> s \<and> s < MIFARE_4K_SECTORS \<and> block = trailer_block_of s)"
  shows "write_single_block_headless t keys block e w = (ERROR_INVALID_DATA, e, w)
       \<and> (\<forall>b pre post n n1 e0 w0 e1 w1.
            uint b = block \<and> b < 64 \<and> selective_loop t keys pre n e0 w0 = (Inr n1, e1, w1)
            \<longrightarrow> selective_loop t keys (pre @ b # post) n e0 w0
                  = (Inl \<lparr>success = False,
                          message = ''Failed at block '' @ String_DEC block @ '' (code=-6)'',
                          code = ERROR_INVALID_DATA\<rparr>, e1, w1))
       \<and> (\<forall>b pre post n n1 e0 w0 e1 w1.
            uint b = block \<and> 64 \<le> b \<and> selective_loop t keys pre n e0 w0 = (Inr n1, e1, w1)
            \<longrightarrow> selective_loop t keys (pre @ b # post) n e0 w0
                  = selective_loop t keys post n1 e1 w1)"
proof (intro conjI allI impI)
  show "write_single_block_headless t keys block e w = (ERROR_INVALID_DATA, e, w)"
    using prot by (rule write_single_block_protected)
next
  fix b :: byte and pre post n n1 e0 w0 e1 w1
  assume h: "uint b = block \<and> b < 64 \<and> selective_loop t keys pre n e0 w0 = (Inr n1, e1, w1)"
  then have "selective_loop t keys (pre @ b # post) n e0 w0
             = selective_loop t keys (b # post) n1 e1 w1"
    by (simp add: selective_loop_append)
  moreover have "write_single_block_headless t keys (uint b) e1 w1 = (ERROR_INVALID_DATA, e1, w1)"
    using prot h by (simp add: write_single_block_protected)
  moreover from h have "\<not> 64 \<le> b" by (simp add: not_le)
  moreover have "ERROR_INVALID_DATA \<noteq> SUCCESS"
    by (simp add: ERROR_INVALID_DATA_def SUCCESS_def)
  ultimately show "selective_loop t keys (pre @ b # post) n e0 w0
                  = (Inl \<lparr>success = False,
                          message = ''Failed at block '' @ String_DEC block @ '' (code=-6)'',
                          code = ERROR_INVALID_DATA\<rparr>, e1, w1)"
    using h by (simp add: String_DEC_minus6)
next
  fix b :: byte and pre post n n1 e0 w0 e1 w1
  assume h: "uint b = block \<and> 64 \<le> b \<and> selective_loop t keys pre n e0 w0 = (Inr n1, e1, w1)"
  then have "selective_loop t keys (pre @ b # post) n e0 w0
             = selective_loop t keys (b # post) n1 e1 w1"
    by (simp add: selective_loop_append)
  with h show "selective_loop t keys (pre @ b # post) n e0 w0
                 = selective_loop t keys post n1 e1 w1"
    by simp
qed

text \<open>The batch \<open>[0, 5, 7]\<close> on a loaded 1K dump fails at block 0 without a single call
  to the reader.  Block 67, the trailer of sector 16, is rejected by the engine of a
  loaded 4K dump, and the loop of a selective write passes over it.\<close>

theorem protected_block_rejected_witness:
  "(0::int) = UID_BLOCK
   \<and> write_single_block_headless silent_transport [] 0 loaded_1k world0
       = (ERROR_INVALID_DATA, loaded_1k, world0)
   \<and> writeMifareBlocksSelective silent_transport [] [0, 5, 7]
         (manager_with loaded_1k (mifare_tag ''Mifare Classic 1K'' 16)) world0
       = (\<lparr>success = False, message = ''Failed at block 0 (code=-6)'', code = - 6\<rparr>,
          manager_with loaded_1k (mifare_tag ''Mifare Classic 1K'' 16), world0)
   \<and> (67::int) = trailer_block_of 16
   \<and> write_single_block_headless silent_transport [] 67 loaded_4k world0
       = (ERROR_INVALID_DATA, loaded_4k, world0)
   \<and> selective_loop silent_transport [] [67] 0 loaded_4k world0 = (Inr 0, loaded_4k, world0)"
proof -
  have p: "(0::int) = UID_BLOCK
           \<or> (\<exists>s. 0 \<le> s \<and> s < MIFARE_4K_SECTORS \<and> (0::int) = trailer_block_of s)"
    by (simp add: UID_BLOCK_def)
  note r = protected_block_rejected [OF p, of silent_transport "[]" loaded_1k world0]
  have "selective_loop silent_transport [] ([] @ 0 # [5, 7]) 0 loaded_1k world0
        = (Inl \<lparr>success = False, message = ''Failed at block '' @ String_DEC 0 @ '' (code=-6)'',
                code = ERROR_INVALID_DATA\<rparr>, loaded_1k, world0)"
    by (rule r [THEN conjunct2, THEN conjunct1, rule_format]) simp
  then have "selective_loop silent_transport [] [0, 5, 7] 0 loaded_1k world0
        = (Inl \<lparr>success = False, message = ''Failed at block 0 (code=-6)'', code = - 6\<rparr>,
           loaded_1k, world0)"
    by (simp add: String_DEC_def dec_digits.simps ERROR_INVALID_DATA_def)
  then have low: "(0::int) = UID_BLOCK
   \<and> write_single_block_headless silent_transport [] 0 loaded_1k world0
       = (ERROR_INVALID_DATA, loaded_1k, world0)
   \<and> writeMifareBlocksSelective silent_transport [] [0, 5, 7]
         (manager_with loaded_1k (mifare_tag ''Mifare Classic 1K'' 16)) world0
       = (\<lparr>success = False, message = ''Failed at block 0 (code=-6)'', code = - 6\<rparr>,
          manager_with loaded_1k (mifare_tag ''Mifare Classic 1K'' 16), world0)"
    using r
    by (simp add: UID_BLOCK_def writeMifareBlocksSelective_def hasValidData_def beginMifare_def
        manager_with_def mifare_tag_def)
  have t: "(67::int) = trailer_block_of 16" by (simp add: trailer_block_of_def geometry_defs)
  then have q: "(67::int) = UID_BLOCK
           \<or> (\<exists>s. 0 \<le> s \<and> s < MIFARE_4K_SECTORS \<and> (67::int) = trailer_block_of s)"
    by (auto simp: MIFARE_4K_SECTORS_def intro!: exI [of _ 16])
  note h = protected_block_rejected [OF q, of silent_transport "[]" loaded_4k world0]
  have "selective_loop silent_transport [] ([] @ 67 # []) 0 loaded_4k world0
        = selective_loop silent_transport [] [] 0 loaded_4k world0"
    by (rule h [THEN conjunct2, THEN conjunct2, rule_format]) simp
  then have high: "selective_loop silent_transport [] [67] 0 loaded_4k world0
                     = (Inr 0, loaded_4k, world0)"
    by simp
  from low t h [THEN conjunct1] high show ?thesis by simp
qed

section \<open>Blocks from 64 up in a selective write\<close>

lemma selective_loop_filter:
  "selective_loop t keys (filter (\<lambda>b. b < 64) bs) n e w = selective_loop t keys bs n e w"
  by (induction bs arbitrary: n e w) (auto split: prod.splits simp: not_le)

lemma selective_loop_all_high:
  "\<forall>b \<in> set bs. 64 \<le> b \<Longrightarrow> selective_loop t keys bs n e w = (Inr n, e, w)"
  by (induction bs) auto

text \<open>
  C10. The selective write behaves exactly as if the block numbers \<open>\<ge> 64\<close> were not
  in the request: the same result, engine state and reader calls as for the request with
  those numbers removed, so they are not attempted, not counted and do not fail the batch.
  A non-empty request made only of such numbers, once the preliminary checks have passed,
  reports success with ``Successfully wrote 0 blocks'' and makes no call to the reader;
  no assumption is made on the card type of the loaded dump.
\<close>

theorem high_blocks_skipped:
  "selective_loop t keys (filter (\<lambda>b. b < 64) bs) n e w = selective_loop t keys bs n e w
   \<and> (bs \<noteq> [] \<and> (\<forall>b \<in> set bs. 64 \<le> b) \<and> hasValidData m \<and> beginMifare t m w = (True, m1, w1)
        \<longrightarrow> writeMifareBlocksSelective t keys bs m w
              = (\<lparr>success = True, message = ''Successfully wrote 0 blocks'', code = 0\<rparr>, m1, w1))"
proof (intro conjI impI)
  show "selective_loop t keys (filter (\<lambda>b. b < 64) bs) n e w = selective_loop t keys bs n e w"
    by (rule selective_loop_filter)
next
  assume h: "bs \<noteq> [] \<and> (\<forall>b \<in> set bs. 64 \<le> b) \<and> hasValidData m
             \<and> beginMifare t m w = (True, m1, w1)"
  then have "mifare_handler m1 \<noteq> None"
    by (auto simp: beginMifare_def split: if_splits prod.splits bool.splits)
  then obtain e1 where e1: "mifare_handler m1 = Some e1" by auto
  then have "m1\<lparr>mifare_handler := Some e1\<rparr> = m1" by simp
  with h e1 show "writeMifareBlocksSelective t keys bs m w
              = (\<lparr>success = True, message = ''Successfully wrote 0 blocks'', code = 0\<rparr>, m1, w1)"
    by (simp add: writeMifareBlocksSelective_def selective_loop_all_high String_DEC_def
        dec_digits.simps)
qed

text \<open>Blocks 64, 200 and 255 of a loaded 4K dump, which has 256 blocks.\<close>

theorem high_blocks_skipped_witness:
  "total_blocks loaded_4k = 256
   \<and> beginMifare silent_transport (manager_with loaded_4k (mifare_tag ''Mifare Classic 4K'' 40))
         world0
       = (True, manager_with loaded_4k (mifare_tag ''Mifare Classic 4K'' 40), world0)
   \<and> writeMifareBlocksSelective silent_transport [] [64, 200, 255]
         (manager_with loaded_4k (mifare_tag ''Mifare Classic 4K'' 40)) world0
       = (\<lparr>success = True, message = ''Successfully wrote 0 blocks'', code = 0\<rparr>,
          manager_with loaded_4k (mifare_tag ''Mifare Classic 4K'' 40), world0)"
proof -
  have b: "beginMifare silent_transport
             (manager_with loaded_4k (mifare_tag ''Mifare Classic 4K'' 40)) world0
           = (True, manager_with loaded_4k (mifare_tag ''Mifare Classic 4K'' 40), world0)"
    by (simp add: beginMifare_def manager_with_def)
  have v: "hasValidData (manager_with loaded_4k (mifare_tag ''Mifare Classic 4K'' 40))"
    by (simp add: hasValidData_def manager_with_def mifare_tag_def)
  show ?thesis
    using high_blocks_skipped [of silent_transport "[]" "[64, 200, 255]" 0 loaded_4k world0
        "manager_with loaded_4k (mifare_tag ''Mifare Classic 4K'' 40)"
        "manager_with loaded_4k (mifare_tag ''Mifare Classic 4K'' 40)" world0] b v
    by (simp add: loaded_4k_def)
qed

section \<open>Full write: protected blocks and abort on failed authentication\<close>

lemma only_calls_refl [simp]: "only_calls P w w"
  by (simp add: only_calls_def)

lemma only_calls_trans: "only_calls P w w1 \<Longrightarrow> only_calls P w1 w2 \<Longrightarrow> only_calls P w w2"
  by (auto simp: only_calls_def)

lemma only_calls_pn532: "pn532 t c w = (r, w') \<Longrightarrow> P c \<Longrightarrow> only_calls P w w'"
  by (auto simp: only_calls_def pn532_def)

lemma only_calls_delay [simp]: "only_calls P w (delay ms w') = only_calls P w w'"
  by (simp add: only_calls_def delay_def)

lemma identifyCardType_harmless: "identifyCardType t e w = (ct, w') \<Longrightarrow> only_calls harmless w w'"
  by (auto simp: identifyCardType_def harmless_def only_calls_def pn532_def
      split: prod.splits option.splits)

lemma reactivateCard_harmless: "reactivateCard t w = (r, w') \<Longrightarrow> only_calls harmless w w'"
  by (auto simp: reactivateCard_def harmless_def only_calls_def pn532_def split: prod.splits)

lemma authenticateBlock_harmless:
  "authenticateBlock t b ka k e w = (r, w') \<Longrightarrow> only_calls harmless w w'"
  by (auto simp: authenticateBlock_def harmless_def only_calls_def pn532_def
      split: prod.splits option.splits)

lemma detectCard_harmless:
  assumes "detectCard t timeout_ms e w = (r, e', w')"
  shows "only_calls harmless w w'"
proof (cases "pn532 t (ReadPassiveTargetID timeout_ms) w")
  case (Pair r1 w1)
  note first = this
  then have c1: "only_calls harmless w w1" by (rule only_calls_pn532) (simp add: harmless_def)
  show ?thesis
  proof (cases r1)
    case None
    with first assms c1 show ?thesis by (simp add: detectCard_def)
  next
    case (Some uid_buffer)
    obtain ct w2 where id:
      "identifyCardType t (e\<lparr>uid_length := length uid_buffer, uid := store (uid e) 0 uid_buffer\<rparr>) w1
         = (ct, w2)"
      by (cases "identifyCardType t
            (e\<lparr>uid_length := length uid_buffer, uid := store (uid e) 0 uid_buffer\<rparr>) w1")
    then have c2: "only_calls harmless w1 w2" by (rule identifyCardType_harmless)
    obtain r4 w4 where second:
      "pn532 t (ReadPassiveTargetID CARD_RESELECT_TIMEOUT_MS) (delay CARD_REACTIVATE_DELAY_MS w2)
         = (r4, w4)"
      by (cases "pn532 t (ReadPassiveTargetID CARD_RESELECT_TIMEOUT_MS)
            (delay CARD_REACTIVATE_DELAY_MS w2)")
    then have "only_calls harmless (delay CARD_REACTIVATE_DELAY_MS w2) w4"
      by (rule only_calls_pn532) (simp add: harmless_def)
    then have c4: "only_calls harmless w2 w4"
      by (simp add: only_calls_def delay_def)
    have "w' = w4"
      using assms first Some id second
      by (cases r4) (simp_all add: detectCard_def Let_def split: CardType.splits)
    with c1 c2 c4 show ?thesis by (blast intro: only_calls_trans)
  qed
qed

lemma wait_for_card_harmless:
  "wait_for_card t start timeout_ms e w = (r, e', w') \<Longrightarrow> only_calls harmless w w'"
proof (induction t start timeout_ms e w rule: wait_for_card.induct)
  case (1 t start timeout_ms e w)
  obtain d e1 w1 where det: "detectCard t CARD_DETECT_SHORT_TIMEOUT_MS e w = (d, e1, w1)"
    by (cases "detectCard t CARD_DETECT_SHORT_TIMEOUT_MS e w") auto
  then have c1: "only_calls harmless w w1" by (rule detectCard_harmless)
  show ?case
  proof (cases "d \<or> millis w1 - start > timeout_ms")
    case True
    with det "1.prems" have "w' = w1"
      by (subst (asm) wait_for_card.simps) (auto split: if_splits bool.splits)
    with c1 show ?thesis by simp
  next
    case False
    with det "1.prems"
    have rec: "wait_for_card t start timeout_ms e1 (delay CARD_DETECT_INTERVAL_MS w1) = (r, e', w')"
      by (subst (asm) wait_for_card.simps) auto
    from False det have "only_calls harmless (delay CARD_DETECT_INTERVAL_MS w1) w'"
      by (intro "1.IH" [OF _ _ _ _ rec]) auto
    then have "only_calls harmless w1 w'" by (simp add: only_calls_def delay_def)
    with c1 show ?thesis by (rule only_calls_trans)
  qed
qed

lemma scan_keys_harmless:
  "scan_keys t fb ka keys kb e w = (r, kb', w') \<Longrightarrow> only_calls harmless w w'"
proof (induction keys arbitrary: kb w)
  case Nil
  then show ?case by simp
next
  case (Cons k ks)
  obtain r1 w1 where a: "authenticateBlock t fb ka (keyToBytes k kb) e w = (r1, w1)"
    by (cases "authenticateBlock t fb ka (keyToBytes k kb) e w")
  then have c1: "only_calls harmless w w1" by (rule authenticateBlock_harmless)
  show ?case
  proof (cases "r1 = SUCCESS")
    case True
    with a Cons.prems c1 show ?thesis by simp
  next
    case False
    obtain r2 w2 where re: "reactivateCard t w1 = (r2, w2)" by (cases "reactivateCard t w1")
    then have c2: "only_calls harmless w1 w2" by (rule reactivateCard_harmless)
    from False a re Cons.prems have "scan_keys t fb ka ks (keyToBytes k kb) e w2 = (r, kb', w')"
      by simp
    then have "only_calls harmless w2 w'" by (rule Cons.IH)
    with c1 c2 show ?thesis by (blast intro: only_calls_trans)
  qed
qed

lemma auth_then_reactivate_harmless:
  "(case authenticateBlock t fb ka k e w of
      (r, w') \<Rightarrow> if r = SUCCESS then (True, w') else (False, snd (reactivateCard t w'))) = (a, w1)
   \<Longrightarrow> only_calls harmless w w1"
  by (auto split: prod.splits if_splits
      dest!: authenticateBlock_harmless
      intro: only_calls_trans reactivateCard_harmless [OF surjective_pairing])

lemma write_cascade_harmless:
  assumes "write_cascade t keys sector fb e w = (a, w')"
  shows "only_calls harmless w w'"
proof -
  obtain a1 w1 where s1:
    "(if key_a_valid (sector_keys e sector) then
        (case authenticateBlock t fb True (key_a (sector_keys e sector)) e w of
           (r, w') \<Rightarrow> if r = SUCCESS then (True, w') else (False, snd (reactivateCard t w')))
      else (False, w)) = (a1, w1)"
    by (meson surj_pair)
  then have c1: "only_calls harmless w w1"
    by (auto split: if_splits dest: auth_then_reactivate_harmless)
  obtain a2 w2 where s2:
    "(if \<not> a1 \<and> key_b_valid (sector_keys e sector) then
        (case authenticateBlock t fb False (key_b (sector_keys e sector)) e w1 of
           (r, w') \<Rightarrow> if r = SUCCESS then (True, w') else (False, snd (reactivateCard t w')))
      else (a1, w1)) = (a2, w2)"
    by (meson surj_pair)
  then have c2: "only_calls harmless w1 w2"
    by (auto split: if_splits dest: auth_then_reactivate_harmless)
  have c3: "only_calls harmless w2 w'"
  proof (cases a2)
    case True
    with assms s1 s2 show ?thesis by (simp add: write_cascade_def)
  next
    case False
    obtain f3 kb3 w3 where k3: "scan_keys t fb True keys (replicate 6 0) e w2 = (f3, kb3, w3)"
      by (meson prod_cases3)
    then have c: "only_calls harmless w2 w3" by (rule scan_keys_harmless)
    show ?thesis
    proof (cases f3)
      case (Some x)
      with False assms s1 s2 k3 c show ?thesis by (simp add: write_cascade_def)
    next
      case None
      obtain f4 kb4 w4 where k4: "scan_keys t fb False keys kb3 e w3 = (f4, kb4, w4)"
        by (meson prod_cases3)
      then have "only_calls harmless w3 w4" by (rule scan_keys_harmless)
      moreover from None False assms s1 s2 k3 k4 have "w' = w4" by (simp add: write_cascade_def)
      ultimately show ?thesis using c by (blast intro: only_calls_trans)
    qed
  qed
  from c1 c2 c3 show ?thesis by (blast intro: only_calls_trans)
qed

lemma first_block_nonneg: "0 \<le> s \<Longrightarrow> 0 \<le> getFirstBlockOfSector s"
  by (simp add: geometry_defs)

lemma sector_of_block_in_sector:
  assumes "0 \<le> s" and "0 \<le> off" and "off < getBlockCountInSector s"
  shows "sector_of_block (getFirstBlockOfSector s + off) = s"
proof (cases "s < 32")
  case True
  with assms have "off < 4" and fb: "getFirstBlockOfSector s = 4 * s"
    by (simp_all add: geometry_defs)
  with True assms have "sector_of_block (4 * s + off) = (4 * s + off) div 4"
    by (intro sector_of_block_small) simp_all
  with \<open>off < 4\<close> assms fb show ?thesis by simp
next
  case False
  with assms have o: "off < 16" and fb: "getFirstBlockOfSector s = 128 + 16 * (s - 32)"
    by (simp_all add: geometry_defs)
  from False assms have "sector_of_block (128 + 16 * (s - 32) + off)
                         = 32 + (128 + 16 * (s - 32) + off - 128) div 16"
    by (intro sector_of_block_large) simp
  with o assms fb show ?thesis by simp
qed

lemma data_block_not_protected:
  assumes s: "0 \<le> s" and off: "0 \<le> off" "off < getBlockCountInSector s"
    and nouid: "\<not> (s = 0 \<and> off = 0)" and notrail: "off \<noteq> getBlockCountInSector s - 1"
  shows "\<not> protected_block (getFirstBlockOfSector s + off)"
proof
  assume "protected_block (getFirstBlockOfSector s + off)"
  then consider "getFirstBlockOfSector s + off = 0"
    | s' where "0 \<le> s'" "s' < 40" "getFirstBlockOfSector s + off = trailer_block_of s'"
    by (auto simp: protected_block_def UID_BLOCK_def MIFARE_4K_SECTORS_def)
  then show False
  proof cases
    case 1
    with s off nouid show False by (auto simp: geometry_defs split: if_splits)
  next
    case 2
    then have "sector_of_block (getFirstBlockOfSector s + off) = s'"
      by (simp add: sector_of_trailer)
    with s off have "s' = s" by (simp add: sector_of_block_in_sector)
    with 2 notrail show False by (simp add: trailer_block_of_def)
  qed
qed

lemma writeSector_blocks_harmless:
  assumes "0 \<le> sector" and "\<forall>off \<in> set offs. 0 \<le> off \<and> off < getBlockCountInSector sector"
    and "writeSector_blocks t sector (getFirstBlockOfSector sector)
           (getBlockCountInSector sector) offs e w = (r, w')"
  shows "only_calls harmless w w'"
  using assms
proof (induction offs arbitrary: w)
  case Nil
  then show ?case by simp
next
  case (Cons off offs)
  show ?case
  proof (cases "(sector = 0 \<and> off = 0) \<or> off = getBlockCountInSector sector - 1")
    case True
    with Cons.prems have "writeSector_blocks t sector (getFirstBlockOfSector sector)
           (getBlockCountInSector sector) offs e w = (r, w')"
      by (auto simp: Let_def split: if_splits)
    with Cons.prems show ?thesis by (intro Cons.IH) auto
  next
    case False
    with Cons.prems have np: "\<not> protected_block (getFirstBlockOfSector sector + off)"
      by (intro data_block_not_protected) auto
    obtain r1 w1 where wr: "pn532 t (WriteDataBlock (getFirstBlockOfSector sector + off)
              (dump_block e (getFirstBlockOfSector sector + off))) w = (r1, w1)"
      by (meson surj_pair)
    from np have "harmless (WriteDataBlock (getFirstBlockOfSector sector + off)
              (dump_block e (getFirstBlockOfSector sector + off)))"
      by (simp add: harmless_def)
    with wr have c1: "only_calls harmless w w1" by (rule only_calls_pn532)
    show ?thesis
    proof (cases r1)
      case None
      with False wr Cons.prems c1 show ?thesis by (auto simp: Let_def)
    next
      case (Some x)
      with False wr Cons.prems
      have "writeSector_blocks t sector (getFirstBlockOfSector sector)
           (getBlockCountInSector sector) offs e (delay BLOCK_WRITE_DELAY_MS w1) = (r, w')"
        by (auto simp: Let_def)
      with Cons.prems have "only_calls harmless (delay BLOCK_WRITE_DELAY_MS w1) w'"
        by (intro Cons.IH) auto
      then have "only_calls harmless w1 w'" by (simp add: only_calls_def delay_def)
      with c1 show ?thesis by (rule only_calls_trans)
    qed
  qed
qed

lemma writeSector_harmless:
  assumes "0 \<le> sector" and "writeSector t keys sector e w = (r, w')"
  shows "only_calls harmless w w'"
proof -
  obtain a w1 where c: "write_cascade t keys sector (getFirstBlockOfSector sector) e w = (a, w1)"
    by (meson surj_pair)
  then have c1: "only_calls harmless w w1" by (rule write_cascade_harmless)
  show ?thesis
  proof (cases a)
    case False
    with c assms c1 show ?thesis by (simp add: writeSector_def)
  next
    case True
    with c assms have "writeSector_blocks t sector (getFirstBlockOfSector sector)
           (getBlockCountInSector sector) (map int [0..<nat (getBlockCountInSector sector)]) e w1
           = (r, w')"
      by (simp add: writeSector_def Let_def)
    with assms(1) have "only_calls harmless w1 w'"
      by (intro writeSector_blocks_harmless) auto
    with c1 show ?thesis by (rule only_calls_trans)
  qed
qed

lemma write_sectors_harmless:
  assumes "\<forall>s \<in> set sectors. 0 \<le> s"
    and "write_sectors t keys start timeout_ms sectors e w = (r, w')"
  shows "only_calls harmless w w'"
  using assms
proof (induction sectors arbitrary: w)
  case Nil
  then show ?case by simp
next
  case (Cons s sectors)
  obtain r1 w1 where ws: "writeSector t keys s e w = (r1, w1)" by (meson surj_pair)
  with Cons.prems have c1: "only_calls harmless w w1" by (intro writeSector_harmless) auto
  show ?case
  proof (cases "r1 \<noteq> SUCCESS \<or> millis w1 - start > timeout_ms")
    case True
    with ws Cons.prems have "w' = w1" by (auto split: if_splits)
    with c1 show ?thesis by simp
  next
    case False
    with ws Cons.prems have "write_sectors t keys start timeout_ms sectors e w1 = (r, w')"
      by auto
    with Cons.prems have "only_calls harmless w1 w'" by (intro Cons.IH) auto
    with c1 show ?thesis by (rule only_calls_trans)
  qed
qed

lemma write_tag_headless_harmless:
  assumes "write_tag_headless t keys timeout_sec e w = (r, e', w')"
  shows "only_calls harmless w w'"
proof (cases "dump_valid e")
  case False
  with assms show ?thesis by (simp add: write_tag_headless_def)
next
  case True
  define start where "start = millis w"
  define timeout_ms where "timeout_ms = nat ((timeout_sec * 1000) mod 2 ^ 32)"
  obtain d e1 w1 where wt: "wait_for_card t start timeout_ms e w = (d, e1, w1)"
    by (meson prod_cases3)
  then have c1: "only_calls harmless w w1" by (rule wait_for_card_harmless)
  show ?thesis
  proof (cases d)
    case False
    with True wt assms c1 show ?thesis
      by (simp add: write_tag_headless_def Let_def start_def timeout_ms_def)
  next
    case d: True
    obtain ct w2 where id: "identifyCardType t e1 w1 = (ct, w2)" by (meson surj_pair)
    then have c2: "only_calls harmless w1 w2" by (rule identifyCardType_harmless)
    show ?thesis
    proof (cases "ct = card_type e1")
      case False
      obtain ct' w3 where id': "identifyCardType t e1 w2 = (ct', w3)" by (meson surj_pair)
      then have "only_calls harmless w2 w3" by (rule identifyCardType_harmless)
      moreover from False True d wt id id' assms have "w' = w3"
        by (simp add: write_tag_headless_def Let_def start_def timeout_ms_def)
      ultimately show ?thesis using c1 c2 by (blast intro: only_calls_trans)
    next
      case same: True
      obtain r3 w3 where ws: "write_sectors t keys start timeout_ms
            (map int [0..<nat (getSectorCount (card_type e1))]) e1 w2 = (r3, w3)"
        by (meson surj_pair)
      then have "only_calls harmless w2 w3" by (intro write_sectors_harmless [OF _ ws]) auto
      moreover from same True d wt id ws assms have "w' = w3"
        by (simp add: write_tag_headless_def Let_def start_def timeout_ms_def)
      ultimately show ?thesis using c1 c2 by (blast intro: only_calls_trans)
    qed
  qed
qed

lemma write_sectors_append:
  "write_sectors t keys start timeout_ms pre e w = (SUCCESS, w1) \<Longrightarrow>
   write_sectors t keys start timeout_ms (pre @ rest) e w
     = write_sectors t keys start timeout_ms rest e w1"
  by (induction pre arbitrary: w)
    (auto split: prod.splits if_splits simp: ERROR_NO_TAG_def SUCCESS_def)

text \<open>
  C2. Whatever the reader answers, the calls made by a full write never include a data
  write to block 0 or to the trailer block of any sector.  When the dump is valid, a
  card was found and its type accepted, the sectors before \<open>sector\<close> were written, and the
  authentication cascade of \<open>sector\<close> fails, the write returns that sector's code
  \<open>ERROR_AUTH_FAILED\<close> in the state reached at the end of that cascade: no later sector
  is attempted.
\<close>

theorem full_write_skips_protected_and_aborts:
  "(write_tag_headless t keys timeout_sec e w = (r, e', w')
      \<longrightarrow> (\<exists>new. calls w' = calls w @ new
             \<and> (\<forall>b d. WriteDataBlock b d \<in> set new
                   \<longrightarrow> b \<noteq> UID_BLOCK
                       \<and> (\<forall>s. 0 \<le> s \<and> s < MIFARE_4K_SECTORS \<longrightarrow> b \<noteq> trailer_block_of s))))
   \<and> (dump_valid e
        \<and> wait_for_card t (millis w) (nat ((timeout_sec * 1000) mod 2 ^ 32)) e w = (True, e1, w1)
        \<and> identifyCardType t e1 w1 = (card_type e1, w2)
        \<and> map int [0..<nat (getSectorCount (card_type e1))] = pre @ sector # post
        \<and> write_sectors t keys (millis w) (nat ((timeout_sec * 1000) mod 2 ^ 32)) pre e1 w2
            = (SUCCESS, w3)
        \<and> write_cascade t keys sector (getFirstBlockOfSector sector) e1 w3 = (False, w4)
      \<longrightarrow> write_tag_headless t keys timeout_sec e w = (ERROR_AUTH_FAILED, e1, w4))"
proof (intro conjI impI)
  assume "write_tag_headless t keys timeout_sec e w = (r, e', w')"
  then have "only_calls harmless w w'" by (rule write_tag_headless_harmless)
  then obtain new where n: "calls w' = calls w @ new" "list_all harmless new"
    by (auto simp: only_calls_def)
  have "b \<noteq> UID_BLOCK \<and> (\<forall>s. 0 \<le> s \<and> s < MIFARE_4K_SECTORS \<longrightarrow> b \<noteq> trailer_block_of s)"
    if "WriteDataBlock b d \<in> set new" for b d
  proof -
    from that n(2) have "harmless (WriteDataBlock b d)" by (simp add: list_all_iff)
    then show ?thesis by (auto simp: harmless_def protected_block_def)
  qed
  with n(1) show "\<exists>new. calls w' = calls w @ new
             \<and> (\<forall>b d. WriteDataBlock b d \<in> set new
                   \<longrightarrow> b \<noteq> UID_BLOCK
                       \<and> (\<forall>s. 0 \<le> s \<and> s < MIFARE_4K_SECTORS \<longrightarrow> b \<noteq> trailer_block_of s))"
    by blast
next
  assume h: "dump_valid e
        \<and> wait_for_card t (millis w) (nat ((timeout_sec * 1000) mod 2 ^ 32)) e w = (True, e1, w1)
        \<and> identifyCardType t e1 w1 = (card_type e1, w2)
        \<and> map int [0..<nat (getSectorCount (card_type e1))] = pre @ sector # post
        \<and> write_sectors t keys (millis w) (nat ((timeout_sec * 1000) mod 2 ^ 32)) pre e1 w2
            = (SUCCESS, w3)
        \<and> write_cascade t keys sector (getFirstBlockOfSector sector) e1 w3 = (False, w4)"
  then have "writeSector t keys sector e1 w3 = (ERROR_AUTH_FAILED, w4)"
    by (simp add: writeSector_def)
  then have "write_sectors t keys (millis w) (nat ((timeout_sec * 1000) mod 2 ^ 32))
               (sector # post) e1 w3 = (ERROR_AUTH_FAILED, w4)"
    by (simp add: ERROR_AUTH_FAILED_def SUCCESS_def)
  with h have "write_sectors t keys (millis w) (nat ((timeout_sec * 1000) mod 2 ^ 32))
               (pre @ sector # post) e1 w2 = (ERROR_AUTH_FAILED, w4)"
    by (simp add: write_sectors_append)
  with h show "write_tag_headless t keys timeout_sec e w = (ERROR_AUTH_FAILED, e1, w4)"
    by (simp add: write_tag_headless_def Let_def)
qed

lemmas eval_defs =
  detectCard_def identifyCardType_def authenticateBlock_def reactivateCard_def
  write_cascade_def writeSector_def pn532_def delay_def uid_bytes_def load_def store_def
  dump_block_def default_key_def Let_def total_blocks_of_def getSectorCount_def
  keyToBytes_def isValidHexKey_def isxdigit_def hexval_def byte_of_hex_def strtoul16_def
  substring_def isspace_def geometry_defs
  CARD_DETECT_SHORT_TIMEOUT_MS_def CARD_REACTIVATE_DELAY_MS_def CARD_RESELECT_TIMEOUT_MS_def
  CARD_DETECT_INTERVAL_MS_def BLOCK_WRITE_DELAY_MS_def MIFARE_BLOCK_SIZE_def
  MIFARE_1K_SECTORS_def MIFARE_4K_SECTORS_def MIFARE_1K_BLOCKS_def MIFARE_4K_BLOCKS_def
  KEY_HEX_LENGTH_def KEY_BYTE_LENGTH_def
  SUCCESS_def ERROR_AUTH_FAILED_def ERROR_WRITE_FAILED_def ERROR_NO_TAG_def
  ERROR_INVALID_DATA_def
  MifareTool_new_def world0_def loaded_1k_def

text \<open>A 1K card whose sector 0 opens and whose sector 1 does not: blocks 1 and 2 are
  written, block 0 and block 3 are not, and nothing follows the failed cascade of
  sector 1.\<close>

theorem full_write_skips_protected_and_aborts_witness:
  "fst (write_tag_headless sector0_transport [''FFFFFFFFFFFF''] 20 loaded_1k world0)
     = ERROR_AUTH_FAILED
   \<and> calls (snd (snd (write_tag_headless sector0_transport [''FFFFFFFFFFFF''] 20 loaded_1k world0)))
     = [ReadPassiveTargetID 100,
        AuthenticateBlock [0xDE, 0xAD, 0xBE, 0xEF] 64 0 [255, 255, 255, 255, 255, 255],
        ReadPassiveTargetID 500,
        AuthenticateBlock [0xDE, 0xAD, 0xBE, 0xEF] 64 0 [255, 255, 255, 255, 255, 255],
        AuthenticateBlock [0xDE, 0xAD, 0xBE, 0xEF] 0 0 [255, 255, 255, 255, 255, 255],
        WriteDataBlock 1 [0, 0, 0, 0, 0, 0, 0, 0, 0, 0, 0, 0, 0, 0, 0, 0],
        WriteDataBlock 2 [0, 0, 0, 0, 0, 0, 0, 0, 0, 0, 0, 0, 0, 0, 0, 0],
        AuthenticateBlock [0xDE, 0xAD, 0xBE, 0xEF] 4 0 [255, 255, 255, 255, 255, 255],
        ReadPassiveTargetID 50,
        AuthenticateBlock [0xDE, 0xAD, 0xBE, 0xEF] 4 1 [255, 255, 255, 255, 255, 255],
        ReadPassiveTargetID 50]"
proof -
  let ?t = sector0_transport and ?k = "[''FFFFFFFFFFFF'']"
  define e1 where "e1 = fst (snd (wait_for_card ?t 0 20000 loaded_1k world0))"
  define w1 where "w1 = snd (snd (wait_for_card ?t 0 20000 loaded_1k world0))"
  define w2 where "w2 = snd (identifyCardType ?t e1 w1)"
  define w3 where "w3 = snd (write_sectors ?t ?k 0 20000 [0] e1 w2)"
  define w4 where "w4 = snd (write_cascade ?t ?k 1 (getFirstBlockOfSector 1) e1 w3)"
  note ev = wait_for_card.simps eval_defs sector0_transport_def upt_rec c_div_def
  have h0: "dump_valid loaded_1k" by (simp add: loaded_1k_def)
  have h1: "wait_for_card ?t (millis world0) (nat ((20 * 1000) mod 2 ^ 32)) loaded_1k world0
            = (True, e1, w1)"
    by (simp add: e1_def w1_def ev)
  have h2: "identifyCardType ?t e1 w1 = (card_type e1, w2)"
    by (simp add: w2_def e1_def w1_def ev)
  have h3: "map int [0..<nat (getSectorCount (card_type e1))] = [0] @ 1 # map int [2..<16]"
    by (simp add: e1_def ev)
  have h4: "write_sectors ?t ?k (millis world0) (nat ((20 * 1000) mod 2 ^ 32)) [0] e1 w2
            = (SUCCESS, w3)"
    by (simp add: w3_def w2_def e1_def w1_def ev)
  have h5: "write_cascade ?t ?k 1 (getFirstBlockOfSector 1) e1 w3 = (False, w4)"
    by (simp add: w4_def w3_def w2_def e1_def w1_def ev)
  have "write_tag_headless ?t ?k 20 loaded_1k world0 = (ERROR_AUTH_FAILED, e1, w4)"
    using full_write_skips_protected_and_aborts
      [of ?t ?k 20 loaded_1k world0 0 loaded_1k world0 e1 w1 w2 "[0]" 1 "map int [2..<16]" w3 w4]
      h0 h1 h2 h3 h4 h5
    by blast
  then show ?thesis
    by (simp add: w4_def w3_def w2_def e1_def w1_def ev)
qed

section \<open>SRIX full write: tag lost after N blocks\<close>

lemma is_srix_write_simps [simp]:
  "is_srix_write SRIX_initiate_select = False"
  "is_srix_write (SRIX_write_block b d) = True"
  by (simp_all add: is_srix_write_def)

lemma waitForTagHeadless_loop_calls:
  "waitForTagHeadless_loop t st tm w = (r, w') \<Longrightarrow>
   \<exists>new. calls w' = calls w @ new \<and> filter is_srix_write new = []"
proof (induction t st tm w rule: waitForTagHeadless_loop.induct)
  case (1 t st tm w)
  show ?case
  proof (cases "millis w - st < tm")
    case False
    with "1.prems" show ?thesis by (subst (asm) waitForTagHeadless_loop.simps) simp
  next
    case True
    obtain r1 w1 where p: "pn532 t SRIX_initiate_select w = (r1, w1)" by (meson surj_pair)
    then have c1: "calls w1 = calls w @ [SRIX_initiate_select]" by (rule pn532_calls)
    show ?thesis
    proof (cases r1)
      case (Some x)
      with True p "1.prems" have "w' = w1"
        by (subst (asm) waitForTagHeadless_loop.simps) simp
      with c1 show ?thesis by simp
    next
      case None
      with True p "1.prems"
      have rec: "waitForTagHeadless_loop t st tm (delay TAG_DETECT_DELAY_MS w1) = (r, w')"
        by (subst (asm) waitForTagHeadless_loop.simps) simp
      from True p None have "\<exists>new. calls w' = calls (delay TAG_DETECT_DELAY_MS w1) @ new
                                \<and> filter is_srix_write new = []"
        by (intro "1.IH" [OF True p [symmetric] _ rec]) simp
      with c1 show ?thesis by (auto simp: delay_def)
    qed
  qed
qed

lemma waitForTagHeadless_calls:
  "waitForTagHeadless t tm s w = (r, w') \<Longrightarrow>
   \<exists>new. calls w' = calls w @ new \<and> filter is_srix_write new = []"
  by (auto simp: waitForTagHeadless_def split: if_splits dest: waitForTagHeadless_loop_calls)

lemma uint_of_nat_small: "k < 256 \<Longrightarrow> uint (of_nat k :: byte) = int k"
  by (simp add: uint_nat unat_of_nat)

lemma srix_write_blocks_Cons:
  assumes "pn532 t (SRIX_write_block b
             (load (srix_dump s) (b * SRIX_BLOCK_SIZE) SRIX_BLOCK_SIZE)) w = (r1, w2)"
    and "waitForTagHeadless t TAG_REDETECT_TIMEOUT_MS s
             (delay SRIX_EEPROM_WRITE_DELAY_MS w2) = (d, w3)"
  shows "srix_write_blocks t s (b # bs) bw w
         = (if r1 = None then (SRIX_ERROR_WRITE_FAILED, w2)
            else if d then srix_write_blocks t s bs (bw + 1) w3
            else (uint (bw + 1), w3))"
  using assms by (cases r1; cases d) simp_all

lemma srix_write_blocks_step:
  "srix_write_blocks t s pre (of_nat k) w = (SRIX_SUCCESS, w1) \<Longrightarrow> k + length pre < 256 \<Longrightarrow>
   srix_write_blocks t s (pre @ rest) (of_nat k) w
     = srix_write_blocks t s rest (of_nat (k + length pre)) w1"
proof (induction pre arbitrary: k w)
  case Nil
  then show ?case by simp
next
  case (Cons b pre)
  have "uint (of_nat (Suc k) :: byte) = int (Suc k)" using Cons.prems(2)
    by (intro uint_of_nat_small) simp
  then have nz: "uint (of_nat k + 1 :: byte) \<noteq> SRIX_SUCCESS"
    by (simp add: SRIX_SUCCESS_def add.commute)
  have sc: "(of_nat k + 1 :: byte) = of_nat (Suc k)" by simp
  obtain r1 w2 where p: "pn532 t (SRIX_write_block b
        (load (srix_dump s) (b * SRIX_BLOCK_SIZE) SRIX_BLOCK_SIZE)) w = (r1, w2)"
    by (meson surj_pair)
  obtain d w3 where wt: "waitForTagHeadless t TAG_REDETECT_TIMEOUT_MS s
        (delay SRIX_EEPROM_WRITE_DELAY_MS w2) = (d, w3)"
    by (meson surj_pair)
  note step = srix_write_blocks_Cons [OF p wt]
  from Cons.prems(1) have r1: "r1 \<noteq> None"
    unfolding step by (auto simp: SRIX_ERROR_WRITE_FAILED_def SRIX_SUCCESS_def split: if_splits)
  with Cons.prems(1) nz have d: "d"
    unfolding step by (auto split: if_splits)
  with Cons.prems(1) r1 have "srix_write_blocks t s pre (of_nat (Suc k)) w3 = (SRIX_SUCCESS, w1)"
    unfolding step by (auto simp: sc simp del: of_nat_Suc)
  moreover from Cons.prems(2) have "Suc k + length pre < 256" by simp
  ultimately have "srix_write_blocks t s (pre @ rest) (of_nat (Suc k)) w3
     = srix_write_blocks t s rest (of_nat (Suc k + length pre)) w1"
    by (rule Cons.IH)
  with r1 d show ?case
    unfolding append_Cons step by (auto simp: sc simp del: of_nat_Suc)
qed

lemma srix_write_blocks_range:
  "srix_write_blocks t s bs (of_nat k) w = (r, w') \<Longrightarrow> k + length bs < 256 \<Longrightarrow>
   r = SRIX_SUCCESS \<or> r = SRIX_ERROR_WRITE_FAILED \<or> (int k < r \<and> r \<le> int (k + length bs))"
proof (induction bs arbitrary: k w)
  case Nil
  then show ?case by simp
next
  case (Cons b bs)
  have u: "uint (of_nat (Suc k) :: byte) = int (Suc k)" using Cons.prems(2)
    by (intro uint_of_nat_small) simp
  have sc: "(of_nat k + 1 :: byte) = of_nat (Suc k)" by simp
  obtain r1 w2 where p: "pn532 t (SRIX_write_block b
        (load (srix_dump s) (b * SRIX_BLOCK_SIZE) SRIX_BLOCK_SIZE)) w = (r1, w2)"
    by (meson surj_pair)
  obtain d w3 where wt: "waitForTagHeadless t TAG_REDETECT_TIMEOUT_MS s
        (delay SRIX_EEPROM_WRITE_DELAY_MS w2) = (d, w3)"
    by (meson surj_pair)
  note step = srix_write_blocks_Cons [OF p wt]
  show ?case
  proof (cases "r1 = None \<or> \<not> d")
    case True
    with Cons.prems(1) u show ?thesis
      unfolding step by (auto simp: sc simp del: of_nat_Suc split: if_splits)
  next
    case False
    with Cons.prems(1) have "srix_write_blocks t s bs (of_nat (Suc k)) w3 = (r, w')"
      unfolding step by (auto simp: sc simp del: of_nat_Suc)
    moreover from Cons.prems(2) have "Suc k + length bs < 256" by simp
    ultimately have "r = SRIX_SUCCESS \<or> r = SRIX_ERROR_WRITE_FAILED
                     \<or> (int (Suc k) < r \<and> r \<le> int (Suc k + length bs))"
      by (rule Cons.IH)
    then show ?thesis by auto
  qed
qed

lemma srix_write_blocks_all_written:
  "srix_write_blocks t s bs (of_nat k) w = (SRIX_SUCCESS, w') \<Longrightarrow> k + length bs < 256 \<Longrightarrow>
   \<exists>new. calls w' = calls w @ new
     \<and> filter is_srix_write new
         = map (\<lambda>b. SRIX_write_block b (load (srix_dump s) (b * SRIX_BLOCK_SIZE) SRIX_BLOCK_SIZE)) bs"
proof (induction bs arbitrary: k w)
  case Nil
  then show ?case by simp
next
  case (Cons b bs)
  have "uint (of_nat (Suc k) :: byte) = int (Suc k)" using Cons.prems(2)
    by (intro uint_of_nat_small) simp
  then have nz: "uint (of_nat k + 1 :: byte) \<noteq> SRIX_SUCCESS"
    by (simp add: SRIX_SUCCESS_def add.commute)
  have sc: "(of_nat k + 1 :: byte) = of_nat (Suc k)" by simp
  obtain r1 w2 where p: "pn532 t (SRIX_write_block b
        (load (srix_dump s) (b * SRIX_BLOCK_SIZE) SRIX_BLOCK_SIZE)) w = (r1, w2)"
    by (meson surj_pair)
  then have c1: "calls w2 = calls w @ [SRIX_write_block b
        (load (srix_dump s) (b * SRIX_BLOCK_SIZE) SRIX_BLOCK_SIZE)]"
    by (rule pn532_calls)
  obtain d w3 where wt: "waitForTagHeadless t TAG_REDETECT_TIMEOUT_MS s
        (delay SRIX_EEPROM_WRITE_DELAY_MS w2) = (d, w3)"
    by (meson surj_pair)
  then obtain n2 where c2: "calls w3 = calls w2 @ n2" "filter is_srix_write n2 = []"
    by (auto dest!: waitForTagHeadless_calls simp: delay_def)
  note step = srix_write_blocks_Cons [OF p wt]
  from Cons.prems(1) have r1: "r1 \<noteq> None"
    unfolding step by (auto simp: SRIX_ERROR_WRITE_FAILED_def SRIX_SUCCESS_def split: if_splits)
  with Cons.prems(1) nz have d: "d"
    unfolding step by (auto split: if_splits)
  with Cons.prems(1) r1 have "srix_write_blocks t s bs (of_nat (Suc k)) w3 = (SRIX_SUCCESS, w')"
    unfolding step by (auto simp: sc simp del: of_nat_Suc)
  moreover from Cons.prems(2) have "Suc k + length bs < 256" by simp
  ultimately obtain n3 where c3: "calls w' = calls w3 @ n3"
     "filter is_srix_write n3
         = map (\<lambda>b. SRIX_write_block b (load (srix_dump s) (b * SRIX_BLOCK_SIZE) SRIX_BLOCK_SIZE)) bs"
    using Cons.IH by blast
  from c1 c2 c3 show ?case by simp
qed

lemma upt_split: "n < m \<Longrightarrow> [0..<m] = [0..<n] @ n # [Suc n..<m]"
  using upt_add_eq_append [of 0 n "m - n"] upt_conv_Cons [of n m] by simp

lemma length_all_srix_blocks: "length [0..<SRIX_BLOCK_COUNT] = 128"
  by (simp only: length_upt SRIX_BLOCK_COUNT_def diff_zero)

text \<open>
  C7. In an SRIX full write, when the blocks \<open>0 .. n-1\<close> were written and re-detected,
  block \<open>n\<close> was written and the tag is not re-detected after it, the engine returns the
  count \<open>n + 1\<close> of blocks written, a positive value.  The engine's result is always 0,
  a count between 1 and 128, or one of the negative codes -1, -2, -5, -6; it is 0 only
  when all 128 blocks were sent to the tag, in order.  The Coordinator passes a positive
  count on as \<open>code\<close> with the message ``Tag lost at block: N'' and \<open>success = false\<close>,
  passes 0 on as success and a negative code as failure, and its \<open>code\<close> is 0 exactly
  when \<open>success\<close> is true.
\<close>

theorem srix_tag_lost_returns_count:
  "(nfc_ok s \<and> (dump_valid_from_read s \<or> dump_valid_from_load s)
      \<and> waitForTagHeadless t (nat ((timeout_seconds * 1000) mod 2 ^ 32)) s w = (True, w0)
      \<and> n < SRIX_BLOCK_COUNT
      \<and> srix_write_blocks t s [0..<n] 0 w0 = (SRIX_SUCCESS, w1)
      \<and> pn532 t (SRIX_write_block n (load (srix_dump s) (n * SRIX_BLOCK_SIZE) SRIX_BLOCK_SIZE)) w1
          = (Some d, w2)
      \<and> waitForTagHeadless t TAG_REDETECT_TIMEOUT_MS s (delay SRIX_EEPROM_WRITE_DELAY_MS w2)
          = (False, w3)
     \<longrightarrow> srix_write_tag_headless t timeout_seconds s w = (int (n + 1), w3))
   \<and> (srix_write_tag_headless t timeout_seconds s w = (r, w')
     \<longrightarrow> (r = 0 \<or> (1 \<le> r \<and> r \<le> 128) \<or> r \<in> {- 1, - 2, - 5, - 6})
         \<and> (r = 0 \<longrightarrow>
              (\<exists>new. calls w' = calls w @ new
                 \<and> filter is_srix_write new
                     = map (\<lambda>b. SRIX_write_block b
                                  (load (srix_dump s) (b * SRIX_BLOCK_SIZE) SRIX_BLOCK_SIZE))
                         [0..<SRIX_BLOCK_COUNT])))
   \<and> (initialized m \<and> beginSRIX t m wa = (True, m1, wb) \<and> valid info
      \<and> protocol info = PROTOCOL_SRIX
      \<and> srix_write_tag_headless t timeout_sec (copy_to_srix_handler info (the (srix_handler m1))) wb
          = (c, wc)
     \<longrightarrow> (c > 0 \<longrightarrow> fst (writeSRIX t info timeout_sec m wa)
                        = \<lparr>success = False,
                           message = ''Tag lost at block: '' @ String_DEC c, code = c\<rparr>)
         \<and> (c = 0 \<longrightarrow> fst (writeSRIX t info timeout_sec m wa)
                        = \<lparr>success = True, message = ''SRIX tag written and verified'',
                           code = 0\<rparr>)
         \<and> (c < 0 \<longrightarrow> \<not> success (fst (writeSRIX t info timeout_sec m wa))
                      \<and> code (fst (writeSRIX t info timeout_sec m wa)) = c))
   \<and> (success (fst (writeSRIX t info timeout_sec m wa))
        \<longleftrightarrow> code (fst (writeSRIX t info timeout_sec m wa)) = 0)"
proof (intro conjI impI)
  assume h: "nfc_ok s \<and> (dump_valid_from_read s \<or> dump_valid_from_load s)
      \<and> waitForTagHeadless t (nat ((timeout_seconds * 1000) mod 2 ^ 32)) s w = (True, w0)
      \<and> n < SRIX_BLOCK_COUNT
      \<and> srix_write_blocks t s [0..<n] 0 w0 = (SRIX_SUCCESS, w1)
      \<and> pn532 t (SRIX_write_block n (load (srix_dump s) (n * SRIX_BLOCK_SIZE) SRIX_BLOCK_SIZE)) w1
          = (Some d, w2)
      \<and> waitForTagHeadless t TAG_REDETECT_TIMEOUT_MS s (delay SRIX_EEPROM_WRITE_DELAY_MS w2)
          = (False, w3)"
  then have n: "n < 128" by (simp add: SRIX_BLOCK_COUNT_def)
  from h have split: "[0..<SRIX_BLOCK_COUNT] = [0..<n] @ n # [Suc n..<SRIX_BLOCK_COUNT]"
    by (intro upt_split) simp
  from h n have "srix_write_blocks t s ([0..<n] @ n # [Suc n..<SRIX_BLOCK_COUNT]) (of_nat 0) w0
                 = srix_write_blocks t s (n # [Suc n..<SRIX_BLOCK_COUNT])
                     (of_nat (0 + length [0..<n])) w1"
    by (intro srix_write_blocks_step) simp_all
  also from h have "\<dots> = (uint (of_nat n + 1 :: byte), w3)"
    by (subst srix_write_blocks_Cons [of t n s w1 "Some d" w2 False w3]) simp_all
  also have "uint (of_nat n + 1 :: byte) = int (n + 1)"
    using n uint_of_nat_small [of "Suc n"] by (simp add: add.commute)
  finally show "srix_write_tag_headless t timeout_seconds s w = (int (n + 1), w3)"
    using h by (auto simp: srix_write_tag_headless_def split)
next
  assume r: "srix_write_tag_headless t timeout_seconds s w = (r, w')"
  show "r = 0 \<or> (1 \<le> r \<and> r \<le> 128) \<or> r \<in> {- 1, - 2, - 5, - 6}"
  proof (cases "nfc_ok s \<and> (dump_valid_from_read s \<or> dump_valid_from_load s)")
    case False
    with r show ?thesis
      by (auto simp: srix_write_tag_headless_def SRIX_ERROR_NULL_NFC_def SRIX_ERROR_NO_DUMP_def
          split: if_splits)
  next
    case True
    obtain d0 w0 where wt: "waitForTagHeadless t (nat ((timeout_seconds * 1000) mod 2 ^ 32)) s w
                             = (d0, w0)"
      by (meson surj_pair)
    show ?thesis
    proof (cases d0)
      case False
      with True wt r show ?thesis
        by (auto simp: srix_write_tag_headless_def SRIX_ERROR_TIMEOUT_def)
    next
      case d0: True
      with True wt r have "srix_write_blocks t s [0..<SRIX_BLOCK_COUNT] (of_nat 0) w0 = (r, w')"
        by (auto simp: srix_write_tag_headless_def)
      then have "r = SRIX_SUCCESS \<or> r = SRIX_ERROR_WRITE_FAILED
                 \<or> (int 0 < r \<and> r \<le> int (0 + length [0..<SRIX_BLOCK_COUNT]))"
        by (rule srix_write_blocks_range) (simp add: length_all_srix_blocks del: length_upt)
      then show ?thesis
        unfolding length_all_srix_blocks
        by (auto simp: SRIX_SUCCESS_def SRIX_ERROR_WRITE_FAILED_def)
    qed
  qed
next
  assume r: "srix_write_tag_headless t timeout_seconds s w = (r, w')" and z: "r = 0"
  obtain d0 w0 where wt: "waitForTagHeadless t (nat ((timeout_seconds * 1000) mod 2 ^ 32)) s w
                           = (d0, w0)"
    by (meson surj_pair)
  then obtain n0 where c0: "calls w0 = calls w @ n0" "filter is_srix_write n0 = []"
    by (auto dest!: waitForTagHeadless_calls)
  from r z wt have "srix_write_blocks t s [0..<SRIX_BLOCK_COUNT] (of_nat 0) w0 = (SRIX_SUCCESS, w')"
    by (auto simp: srix_write_tag_headless_def SRIX_ERROR_NULL_NFC_def SRIX_ERROR_NO_DUMP_def
        SRIX_ERROR_TIMEOUT_def SRIX_SUCCESS_def split: if_splits bool.splits)
  then obtain n1 where c1: "calls w' = calls w0 @ n1"
     "filter is_srix_write n1
       = map (\<lambda>b. SRIX_write_block b (load (srix_dump s) (b * SRIX_BLOCK_SIZE) SRIX_BLOCK_SIZE))
           [0..<SRIX_BLOCK_COUNT]"
    using srix_write_blocks_all_written [of t s "[0..<SRIX_BLOCK_COUNT]" 0 w0 w']
      length_all_srix_blocks
    by auto
  from c0 c1 show "\<exists>new. calls w' = calls w @ new
                 \<and> filter is_srix_write new
                     = map (\<lambda>b. SRIX_write_block b
                                  (load (srix_dump s) (b * SRIX_BLOCK_SIZE) SRIX_BLOCK_SIZE))
                         [0..<SRIX_BLOCK_COUNT]"
    by (intro exI [of _ "n0 @ n1"]) simp
next
  assume h: "initialized m \<and> beginSRIX t m wa = (True, m1, wb) \<and> valid info
      \<and> protocol info = PROTOCOL_SRIX
      \<and> srix_write_tag_headless t timeout_sec (copy_to_srix_handler info (the (srix_handler m1))) wb
          = (c, wc)" and "c > 0"
  then show "fst (writeSRIX t info timeout_sec m wa)
                        = \<lparr>success = False,
                           message = ''Tag lost at block: '' @ String_DEC c, code = c\<rparr>"
    by (simp add: writeSRIX_def Let_def)
next
  assume h: "initialized m \<and> beginSRIX t m wa = (True, m1, wb) \<and> valid info
      \<and> protocol info = PROTOCOL_SRIX
      \<and> srix_write_tag_headless t timeout_sec (copy_to_srix_handler info (the (srix_handler m1))) wb
          = (c, wc)" and "c = 0"
  then show "fst (writeSRIX t info timeout_sec m wa)
                        = \<lparr>success = True, message = ''SRIX tag written and verified'',
                           code = 0\<rparr>"
    by (simp add: writeSRIX_def Let_def)
next
  assume h: "initialized m \<and> beginSRIX t m wa = (True, m1, wb) \<and> valid info
      \<and> protocol info = PROTOCOL_SRIX
      \<and> srix_write_tag_headless t timeout_sec (copy_to_srix_handler info (the (srix_handler m1))) wb
          = (c, wc)" and "c < 0"
  then show "\<not> success (fst (writeSRIX t info timeout_sec m wa))"
    by (simp add: writeSRIX_def Let_def)
next
  assume h: "initialized m \<and> beginSRIX t m wa = (True, m1, wb) \<and> valid info
      \<and> protocol info = PROTOCOL_SRIX
      \<and> srix_write_tag_headless t timeout_sec (copy_to_srix_handler info (the (srix_handler m1))) wb
          = (c, wc)" and "c < 0"
  then show "code (fst (writeSRIX t info timeout_sec m wa)) = c"
    by (simp add: writeSRIX_def Let_def)
next
  show "success (fst (writeSRIX t info timeout_sec m wa))
        \<longleftrightarrow> code (fst (writeSRIX t info timeout_sec m wa)) = 0"
    by (auto simp: writeSRIX_def Let_def split: prod.splits bool.splits if_splits)
qed

lemmas srix_eval_defs =
  waitForTagHeadless_loop.simps waitForTagHeadless_def pn532_def delay_def load_def store_def
  vanishing_tag_transport_def copy_to_srix_handler_def setDumpValidFromLoad_def SRIXTool_new_def
  srix_tag_def srix_manager_def world0_def Let_def upt_rec
  SRIX_BLOCK_SIZE_def SRIX_DUMP_SIZE_def TAG_DETECT_DELAY_MS_def TAG_REDETECT_TIMEOUT_MS_def
  SRIX_EEPROM_WRITE_DELAY_MS_def SRIX_SUCCESS_def SRIX_ERROR_WRITE_FAILED_def

text \<open>The tag vanishes after the third block: the engine returns 3 and the Coordinator
  reports ``Tag lost at block: 3'' with code 3.\<close>

theorem srix_tag_lost_returns_count_witness:
  "fst (srix_write_tag_headless (vanishing_tag_transport 3) 20
          (copy_to_srix_handler srix_tag SRIXTool_new) world0) = 3
   \<and> fst (writeSRIX (vanishing_tag_transport 3) srix_tag 20 srix_manager world0)
       = \<lparr>success = False, message = ''Tag lost at block: 3'', code = 3\<rparr>"
proof -
  let ?t = "vanishing_tag_transport 3"
  let ?s = "copy_to_srix_handler srix_tag SRIXTool_new"
  define w0 where "w0 = snd (waitForTagHeadless ?t 20000 ?s world0)"
  define w1 where "w1 = snd (srix_write_blocks ?t ?s [0..<2] 0 w0)"
  define w2 where "w2 = snd (pn532 ?t (SRIX_write_block 2
                      (load (srix_dump ?s) (2 * SRIX_BLOCK_SIZE) SRIX_BLOCK_SIZE)) w1)"
  define w3 where "w3 = snd (waitForTagHeadless ?t TAG_REDETECT_TIMEOUT_MS ?s
                      (delay SRIX_EEPROM_WRITE_DELAY_MS w2))"
  have h0: "nfc_ok ?s \<and> (dump_valid_from_read ?s \<or> dump_valid_from_load ?s)"
    by (simp add: srix_eval_defs)
  have h1: "waitForTagHeadless ?t (nat ((20 * 1000) mod 2 ^ 32)) ?s world0 = (True, w0)"
    by (simp add: w0_def srix_eval_defs)
  have h2: "(2::nat) < SRIX_BLOCK_COUNT" by (simp add: SRIX_BLOCK_COUNT_def)
  have h3: "srix_write_blocks ?t ?s [0..<2] 0 w0 = (SRIX_SUCCESS, w1)"
    by (simp add: w1_def w0_def srix_eval_defs)
  have h4: "pn532 ?t (SRIX_write_block 2
              (load (srix_dump ?s) (2 * SRIX_BLOCK_SIZE) SRIX_BLOCK_SIZE)) w1 = (Some [], w2)"
    by (simp add: w2_def w1_def w0_def srix_eval_defs)
  have h5: "waitForTagHeadless ?t TAG_REDETECT_TIMEOUT_MS ?s
              (delay SRIX_EEPROM_WRITE_DELAY_MS w2) = (False, w3)"
    by (simp add: w3_def w2_def w1_def w0_def srix_eval_defs)
  note inst = srix_tag_lost_returns_count
      [of ?s ?t 20 world0 w0 2 w1 "[]" w2 w3 0 world0 srix_manager world0 srix_manager world0
          srix_tag 20 3 w3]
  from inst h0 h1 h2 h3 h4 h5
  have e: "srix_write_tag_headless ?t 20 ?s world0 = (3, w3)" by simp
  have b: "initialized srix_manager \<and> beginSRIX ?t srix_manager world0 = (True, srix_manager, world0)
           \<and> valid srix_tag \<and> protocol srix_tag = PROTOCOL_SRIX
           \<and> the (srix_handler srix_manager) = SRIXTool_new"
    by (simp add: beginSRIX_def srix_manager_def srix_tag_def)
  from inst e b
  have "fst (writeSRIX ?t srix_tag 20 srix_manager world0)
         = \<lparr>success = False, message = ''Tag lost at block: '' @ String_DEC 3, code = 3\<rparr>"
    by simp
  with e show ?thesis by (simp add: String_DEC_def dec_digits.simps)
qed

section \<open>Trailer reconstruction after a sector read\<close>

lemma keyToBytes_length: "length bytes = 6 \<Longrightarrow> length (keyToBytes key bytes) = 6"
  by (simp add: keyToBytes_def KEY_BYTE_LENGTH_def)

lemma scan_keys_length:
  "scan_keys t fb ka keys kb e w = (r, kb', w') \<Longrightarrow> length kb = 6 \<Longrightarrow> length kb' = 6"
proof (induction keys arbitrary: kb w)
  case Nil
  then show ?case by simp
next
  case (Cons k ks)
  then show ?case
    by (auto simp: Let_def keyToBytes_length split: prod.splits if_splits)
qed

lemma load_store_same: "load (store a off bs) off (length bs) = bs"
  by (auto simp: load_def store_def intro: nth_equalityI)

lemma load_store_same_n: "length bs = n \<Longrightarrow> load (store a off bs) off n = bs"
  using load_store_same [of a off bs] by simp

lemma load_store_disjoint:
  "off2 + n \<le> off \<or> off + length bs \<le> off2 \<Longrightarrow> load (store a off bs) off2 n = load a off2 n"
  by (auto simp: load_def store_def)

lemma length_block_buffer [simp]: "length (block_buffer bs) = 16"
  by (simp add: block_buffer_def MIFARE_BLOCK_SIZE_def)

lemma load_store_inner:
  "i + n \<le> length bs \<Longrightarrow> load (store a off bs) (off + i) n = take n (drop i bs)"
  by (auto simp: load_def store_def intro!: nth_equalityI)

lemma read_cascade_key:
  assumes "read_cascade t keys sector fb cka ckb e w = (True, used, kb, cka1, ckb1, e1, w1)"
  shows "length kb = 6
       \<and> (used \<longrightarrow> key_a_valid (sector_keys e1 sector) \<and> key_a (sector_keys e1 sector) = kb)
       \<and> (\<not> used \<longrightarrow> key_b_valid (sector_keys e1 sector) \<and> key_b (sector_keys e1 sector) = kb)"
proof -
  obtain a1 u1 k1 ea wa where s1:
    "(if cka \<noteq> [] then
        (let kb = keyToBytes cka (replicate 6 0) in
         case authenticateBlock t fb True kb e w of
           (r, w') \<Rightarrow>
             if r = SUCCESS then (True, True, kb, set_key_a sector kb e, w')
             else (False, False, kb, e, snd (reactivateCard t w')))
      else (False, False, replicate 6 0, e, w)) = (a1, u1, k1, ea, wa)"
    by (meson prod_cases5)
  then have p1: "length k1 = 6 \<and> (a1 \<longrightarrow> u1 \<and> key_a_valid (sector_keys ea sector)
                   \<and> key_a (sector_keys ea sector) = k1)"
    by (auto simp: Let_def keyToBytes_length set_key_a_def MIFARE_KEY_SIZE_def
        split: if_splits prod.splits)
  obtain a2 u2 k2 eb wb where s2:
    "(if \<not> a1 \<and> ckb \<noteq> [] then
        (let kb = keyToBytes ckb k1 in
         case authenticateBlock t fb False kb ea wa of
           (r, w') \<Rightarrow>
             if r = SUCCESS then (True, False, kb, set_key_b sector kb ea, w')
             else (False, u1, kb, ea, snd (reactivateCard t w')))
      else (a1, u1, k1, ea, wa)) = (a2, u2, k2, eb, wb)"
    by (meson prod_cases5)
  with p1 have p2: "length k2 = 6
       \<and> (a2 \<longrightarrow> (u2 \<longrightarrow> key_a_valid (sector_keys eb sector) \<and> key_a (sector_keys eb sector) = k2)
              \<and> (\<not> u2 \<longrightarrow> key_b_valid (sector_keys eb sector)
                              \<and> key_b (sector_keys eb sector) = k2))"
    by (auto simp: Let_def keyToBytes_length set_key_b_def MIFARE_KEY_SIZE_def
        split: if_splits prod.splits)
  show ?thesis
  proof (cases a2)
    case True
    with assms s1 s2 p2 show ?thesis by (simp add: read_cascade_def)
  next
    case False
    obtain f3 k3 w3 where k3: "scan_keys t fb True keys k2 eb wb = (f3, k3, w3)"
      by (meson prod_cases3)
    with p2 have l3: "length k3 = 6" by (auto dest: scan_keys_length)
    show ?thesis
    proof (cases f3)
      case (Some key_str)
      with False assms s1 s2 k3 l3 show ?thesis
        by (auto simp: read_cascade_def set_key_a_def MIFARE_KEY_SIZE_def)
    next
      case None
      obtain f4 k4 w4 where k4: "scan_keys t fb False keys k3 eb w3 = (f4, k4, w4)"
        by (meson prod_cases3)
      with l3 have l4: "length k4 = 6" by (auto dest: scan_keys_length)
      from None False assms s1 s2 k3 k4 l4 show ?thesis
        by (cases f4) (auto simp: read_cascade_def set_key_b_def MIFARE_KEY_SIZE_def)
    qed
  qed
qed

lemma readSector_blocks_keys:
  "readSector_blocks t fb offs e w = (r, e', w') \<Longrightarrow> sector_keys e' = sector_keys e"
  by (induction offs arbitrary: e w) (auto simp: Let_def split: prod.splits option.splits)

lemma readSector_blocks_last:
  "readSector_blocks t fb (pre @ [lst]) e w = (SUCCESS, e', w') \<Longrightarrow>
   \<exists>hist data d0.
     calls w' = hist @ [ReadDataBlock (fb + lst)]
     \<and> reply t hist (ReadDataBlock (fb + lst)) = Some data
     \<and> dump e' = store d0 (nat (fb + lst) * MIFARE_BLOCK_SIZE) (block_buffer data)"
proof (induction pre arbitrary: e w)
  case Nil
  then show ?case
    by (auto simp: Let_def pn532_def ERROR_READ_FAILED_def SUCCESS_def
        split: prod.splits option.splits)
next
  case (Cons off pre)
  then show ?case
    by (auto simp: Let_def ERROR_READ_FAILED_def SUCCESS_def split: prod.splits option.splits)
qed

lemma reconstruct_trailer_dump:
  fixes sector :: int and e :: MifareTool
  defines "tb \<equiv> nat (trailer_block_of sector) * MIFARE_BLOCK_SIZE"
  shows "load (dump (reconstruct_trailer sector e)) (tb + 6) 4 = load (dump e) (tb + 6) 4"
    and "key_a_valid (sector_keys e sector) \<Longrightarrow> length (key_a (sector_keys e sector)) = 6 \<Longrightarrow>
         load (dump (reconstruct_trailer sector e)) tb 6 = key_a (sector_keys e sector)"
    and "key_b_valid (sector_keys e sector) \<Longrightarrow> length (key_b (sector_keys e sector)) = 6 \<Longrightarrow>
         load (dump (reconstruct_trailer sector e)) (tb + 10) 6 = key_b (sector_keys e sector)"
    and "sector_keys (reconstruct_trailer sector e) = sector_keys e"
proof -
  show "load (dump (reconstruct_trailer sector e)) (tb + 6) 4 = load (dump e) (tb + 6) 4"
    by (simp add: reconstruct_trailer_def Let_def tb_def trailer_block_of_def KEY_A_OFFSET_def
        KEY_B_OFFSET_def MIFARE_KEY_SIZE_def load_store_disjoint)
  show "load (dump (reconstruct_trailer sector e)) tb 6 = key_a (sector_keys e sector)"
    if "key_a_valid (sector_keys e sector)" "length (key_a (sector_keys e sector)) = 6"
    using that
    by (simp add: reconstruct_trailer_def Let_def tb_def trailer_block_of_def KEY_A_OFFSET_def
        KEY_B_OFFSET_def MIFARE_KEY_SIZE_def load_store_disjoint load_store_same_n)
  show "load (dump (reconstruct_trailer sector e)) (tb + 10) 6 = key_b (sector_keys e sector)"
    if "key_b_valid (sector_keys e sector)" "length (key_b (sector_keys e sector)) = 6"
    using that
    by (simp add: reconstruct_trailer_def Let_def tb_def trailer_block_of_def KEY_A_OFFSET_def
        KEY_B_OFFSET_def MIFARE_KEY_SIZE_def load_store_same_n)
  show "sector_keys (reconstruct_trailer sector e) = sector_keys e"
    by (simp add: reconstruct_trailer_def Let_def)
qed

lemma authenticateBlock_accepts:
  "authenticateBlock t fb ka kb e w = (SUCCESS, w') \<Longrightarrow>
   accepts t (AuthenticateBlock (uid_bytes e) fb (if ka then 0 else 1) kb)"
proof -
  assume a: "authenticateBlock t fb ka kb e w = (SUCCESS, w')"
  have "reply t (calls w) (AuthenticateBlock (uid_bytes e) fb (if ka then 0 else 1) kb) \<noteq> None"
  proof
    assume "reply t (calls w) (AuthenticateBlock (uid_bytes e) fb (if ka then 0 else 1) kb) = None"
    with a show False
      by (simp add: authenticateBlock_def pn532_def SUCCESS_def ERROR_AUTH_FAILED_def)
  qed
  then show ?thesis unfolding accepts_def by blast
qed

lemma scan_keys_accepts:
  "scan_keys t fb ka keys kb e w = (Some k, kb', w') \<Longrightarrow>
   accepts t (AuthenticateBlock (uid_bytes e) fb (if ka then 0 else 1) kb')"
proof (induction keys arbitrary: kb w)
  case Nil
  then show ?case by simp
next
  case (Cons key ks)
  obtain r1 w1 where a: "authenticateBlock t fb ka (keyToBytes key kb) e w = (r1, w1)"
    by (meson surj_pair)
  show ?case
  proof (cases "r1 = SUCCESS")
    case True
    with a Cons.prems have "kb' = keyToBytes key kb" by auto
    with a True show ?thesis by (simp add: authenticateBlock_accepts)
  next
    case False
    with a Cons.prems
    have "scan_keys t fb ka ks (keyToBytes key kb) e (snd (reactivateCard t w1)) = (Some k, kb', w')"
      by simp
    then show ?thesis by (rule Cons.IH)
  qed
qed

lemma uid_bytes_set_key [simp]:
  "uid_bytes (set_key_a sector kb e) = uid_bytes e"
  "uid_bytes (set_key_b sector kb e) = uid_bytes e"
  by (simp_all add: uid_bytes_def set_key_a_def set_key_b_def)

lemma read_cascade_accepts:
  assumes "read_cascade t keys sector fb cka ckb e w = (True, used, kb, cka1, ckb1, e1, w1)"
  shows "accepts t (AuthenticateBlock (uid_bytes e) fb (if used then 0 else 1) kb)"
proof -
  obtain a1 u1 k1 ea wa where s1:
    "(if cka \<noteq> [] then
        (let kb = keyToBytes cka (replicate 6 0) in
         case authenticateBlock t fb True kb e w of
           (r, w') \<Rightarrow>
             if r = SUCCESS then (True, True, kb, set_key_a sector kb e, w')
             else (False, False, kb, e, snd (reactivateCard t w')))
      else (False, False, replicate 6 0, e, w)) = (a1, u1, k1, ea, wa)"
    by (meson prod_cases5)
  have p1: "uid_bytes ea = uid_bytes e
      \<and> (a1 \<longrightarrow> u1 \<and> accepts t (AuthenticateBlock (uid_bytes e) fb 0 k1))"
  proof (cases "cka = []")
    case True
    with s1 show ?thesis by simp
  next
    case False
    obtain r w' where a: "authenticateBlock t fb True (keyToBytes cka (replicate 6 0)) e w = (r, w')"
      by (meson surj_pair)
    show ?thesis
    proof (cases "r = SUCCESS")
      case True
      with a have "accepts t (AuthenticateBlock (uid_bytes e) fb 0 (keyToBytes cka (replicate 6 0)))"
        using authenticateBlock_accepts [of t fb True "keyToBytes cka (replicate 6 0)" e w w']
        by simp
      with s1 False a True show ?thesis by (auto simp: Let_def)
    next
      case nok: False
      with s1 False a show ?thesis by (auto simp: Let_def)
    qed
  qed
  obtain a2 u2 k2 eb wb where s2:
    "(if \<not> a1 \<and> ckb \<noteq> [] then
        (let kb = keyToBytes ckb k1 in
         case authenticateBlock t fb False kb ea wa of
           (r, w') \<Rightarrow>
             if r = SUCCESS then (True, False, kb, set_key_b sector kb ea, w')
             else (False, u1, kb, ea, snd (reactivateCard t w')))
      else (a1, u1, k1, ea, wa)) = (a2, u2, k2, eb, wb)"
    by (meson prod_cases5)
  have p2: "uid_bytes eb = uid_bytes e
      \<and> (a2 \<longrightarrow> accepts t (AuthenticateBlock (uid_bytes e) fb (if u2 then 0 else 1) k2))"
  proof (cases "\<not> a1 \<and> ckb \<noteq> []")
    case False
    with s2 p1 show ?thesis by auto
  next
    case True
    obtain r w' where a: "authenticateBlock t fb False (keyToBytes ckb k1) ea wa = (r, w')"
      by (meson surj_pair)
    show ?thesis
    proof (cases "r = SUCCESS")
      case ok: True
      with a p1 have "accepts t (AuthenticateBlock (uid_bytes e) fb 1 (keyToBytes ckb k1))"
        using authenticateBlock_accepts [of t fb False "keyToBytes ckb k1" ea wa w']
        by simp
      with s2 True a ok p1 show ?thesis by (auto simp: Let_def)
    next
      case nok: False
      with s2 True a p1 show ?thesis by (auto simp: Let_def)
    qed
  qed
  show ?thesis
  proof (cases a2)
    case True
    with assms s1 s2 p2 show ?thesis by (simp add: read_cascade_def)
  next
    case False
    obtain f3 k3 w3 where k3: "scan_keys t fb True keys k2 eb wb = (f3, k3, w3)"
      by (meson prod_cases3)
    show ?thesis
    proof (cases f3)
      case (Some key_str)
      with k3 p2 have "accepts t (AuthenticateBlock (uid_bytes e) fb 0 k3)"
        using scan_keys_accepts [of t fb True keys k2 eb wb key_str k3 w3] by simp
      with Some False assms s1 s2 k3 show ?thesis
        by (simp add: read_cascade_def)
    next
      case None
      obtain f4 k4 w4 where k4: "scan_keys t fb False keys k3 eb w3 = (f4, k4, w4)"
        by (meson prod_cases3)
      show ?thesis
      proof (cases f4)
        case n4: None
        with None False assms s1 s2 k3 k4 show ?thesis by (simp add: read_cascade_def)
      next
        case (Some key_str)
        with k4 p2 have "accepts t (AuthenticateBlock (uid_bytes e) fb 1 k4)"
          using scan_keys_accepts [of t fb False keys k3 eb w3 key_str k4 w4] by simp
        with Some None False assms s1 s2 k3 k4 show ?thesis
          by (simp add: read_cascade_def)
      qed
    qed
  qed
qed

lemma upt_last: "0 < n \<Longrightarrow> [0..<n] = [0..<n - 1] @ [n - 1]"
  by (cases n) simp_all

text \<open>
  C8. When the cascade of \<open>readSectorWithCache\<close> authenticated the sector with the key
  \<open>key_bytes\<close> (as Key A when \<open>used_key_a\<close>, as Key B otherwise; the reader accepted that
  authentication) and the sector was read, then in the dump the trailer of the sector
  holds \<open>key_bytes\<close> in bytes 0--5 when it was found as Key A and in bytes 10--15 when it
  was found as Key B, and bytes 6--9 of the trailer are those of the block the reader
  returned for the trailer, which is the last call made.
\<close>

theorem trailer_keys_reconstructed:
  assumes casc: "read_cascade t keys sector (getFirstBlockOfSector sector) cached_key_a cached_key_b e w
                   = (True, used_key_a, key_bytes, cka, ckb, e1, w1)"
    and ok: "readSectorWithCache t keys sector cached_key_a cached_key_b e w
                   = (SUCCESS, cka', ckb', e', w')"
  shows "accepts t (AuthenticateBlock (uid_bytes e) (getFirstBlockOfSector sector)
                      (if used_key_a then 0 else 1) key_bytes)
       \<and> (used_key_a \<longrightarrow>
            load (dump e') (nat (trailer_block_of sector) * MIFARE_BLOCK_SIZE) 6 = key_bytes)
       \<and> (\<not> used_key_a \<longrightarrow>
            load (dump e') (nat (trailer_block_of sector) * MIFARE_BLOCK_SIZE + 10) 6 = key_bytes)
       \<and> (\<exists>hist data.
            calls w' = hist @ [ReadDataBlock (trailer_block_of sector)]
            \<and> reply t hist (ReadDataBlock (trailer_block_of sector)) = Some data
            \<and> load (dump e') (nat (trailer_block_of sector) * MIFARE_BLOCK_SIZE + 6) 4
                = take 4 (drop 6 (block_buffer data)))"
proof -
  let ?fb = "getFirstBlockOfSector sector" and ?n = "getBlockCountInSector sector"
  let ?tb = "nat (trailer_block_of sector) * MIFARE_BLOCK_SIZE"
  obtain r2 e2 w2 where rd:
    "readSector_blocks t ?fb (map int [0..<nat ?n]) e1 w1 = (r2, e2, w2)"
    by (meson prod_cases3)
  from casc ok rd have r2: "r2 = SUCCESS"
    by (auto simp: readSectorWithCache_def Let_def split: if_splits)
  from casc ok rd r2 have e': "e' = reconstruct_trailer sector e2" and w': "w' = w2"
    by (simp_all add: readSectorWithCache_def Let_def)
  have pos: "0 < nat ?n" by (simp add: geometry_defs)
  have "int (nat ?n - 1) = ?n - 1" by (simp add: geometry_defs)
  with upt_last [OF pos] have sp: "map int [0..<nat ?n] = map int [0..<nat ?n - 1] @ [?n - 1]"
    by simp
  from rd r2 have "readSector_blocks t ?fb (map int [0..<nat ?n - 1] @ [?n - 1]) e1 w1
                   = (SUCCESS, e2, w2)"
    by (simp only: sp)
  then obtain hist data d0 where last:
    "calls w2 = hist @ [ReadDataBlock (?fb + (?n - 1))]"
    "reply t hist (ReadDataBlock (?fb + (?n - 1))) = Some data"
    "dump e2 = store d0 (nat (?fb + (?n - 1)) * MIFARE_BLOCK_SIZE) (block_buffer data)"
    using readSector_blocks_last by blast
  from rd have keys2: "sector_keys e2 = sector_keys e1" by (rule readSector_blocks_keys)
  note key = read_cascade_key [OF casc]
  have a: "load (dump e') ?tb 6 = key_bytes" if used_key_a
  proof -
    from that key keys2 have "key_a_valid (sector_keys e2 sector)"
      "length (key_a (sector_keys e2 sector)) = 6" "key_a (sector_keys e2 sector) = key_bytes"
      by simp_all
    then show ?thesis using reconstruct_trailer_dump(2) [of e2 sector] by (simp add: e')
  qed
  have b: "load (dump e') (?tb + 10) 6 = key_bytes" if "\<not> used_key_a"
  proof -
    from that key keys2 have "key_b_valid (sector_keys e2 sector)"
      "length (key_b (sector_keys e2 sector)) = 6" "key_b (sector_keys e2 sector) = key_bytes"
      by simp_all
    then show ?thesis using reconstruct_trailer_dump(3) [of e2 sector] by (simp add: e')
  qed
  have "load (dump e') (?tb + 6) 4 = load (dump e2) (?tb + 6) 4"
    using reconstruct_trailer_dump(1) [of sector e2] by (simp add: e')
  also have "\<dots> = take 4 (drop 6 (block_buffer data))"
    unfolding last(3) trailer_block_of_def by (rule load_store_inner) simp
  finally have c: "load (dump e') (?tb + 6) 4 = take 4 (drop 6 (block_buffer data))" .
  have d: "\<exists>hist data.
            calls w' = hist @ [ReadDataBlock (trailer_block_of sector)]
            \<and> reply t hist (ReadDataBlock (trailer_block_of sector)) = Some data
            \<and> load (dump e') (?tb + 6) 4 = take 4 (drop 6 (block_buffer data))"
    using last(1,2) c w' unfolding trailer_block_of_def by blast
  from read_cascade_accepts [OF casc] a b d show ?thesis by blast
qed

lemmas read_eval_defs =
  read_cascade_def readSectorWithCache_def reconstruct_trailer_def set_key_a_def set_key_b_def
  block_buffer_def factory_card_transport_def trailer_block_of_def MIFARE_KEY_SIZE_def
  KEY_A_OFFSET_def KEY_B_OFFSET_def ERROR_READ_FAILED_def c_div_def upt_rec

text \<open>Sector 0 of a factory card, read by a fresh engine: the trailer (block 3, bytes
  48--63 of the dump) holds the factory key, then the access bits as read, then the
  zeros read for Key B.\<close>

theorem trailer_keys_reconstructed_witness:
  "fst (readSectorWithCache factory_card_transport [''FFFFFFFFFFFF''] 0 [] [] MifareTool_new world0)
     = SUCCESS
   \<and> load (dump (fst (snd (snd (snd
          (readSectorWithCache factory_card_transport [''FFFFFFFFFFFF''] 0 [] [] MifareTool_new
             world0)))))) 48 16
     = [0xFF, 0xFF, 0xFF, 0xFF, 0xFF, 0xFF, 0xFF, 0x07, 0x80, 0x69, 0, 0, 0, 0, 0, 0]"
proof -
  let ?t = factory_card_transport and ?k = "[''FFFFFFFFFFFF'']"
  define C where "C = read_cascade ?t ?k 0 (getFirstBlockOfSector 0) [] [] MifareTool_new world0"
  define R where "R = readSectorWithCache ?t ?k 0 [] [] MifareTool_new world0"
  have h1: "read_cascade ?t ?k 0 (getFirstBlockOfSector 0) [] [] MifareTool_new world0
            = (True, True, default_key, ''FFFFFFFFFFFF'', [], fst (snd (snd (snd (snd (snd C))))),
               snd (snd (snd (snd (snd (snd C))))))"
    by (simp add: C_def eval_defs read_eval_defs)
  have h2: "readSectorWithCache ?t ?k 0 [] [] MifareTool_new world0
            = (SUCCESS, fst (snd R), fst (snd (snd R)), fst (snd (snd (snd R))),
               snd (snd (snd (snd R))))"
    by (simp add: R_def eval_defs read_eval_defs)
  from trailer_keys_reconstructed [OF h1 h2]
  have a: "load (dump (fst (snd (snd (snd R))))) (nat (trailer_block_of 0) * MIFARE_BLOCK_SIZE) 6
           = default_key"
    by simp
  have b: "load (dump (fst (snd (snd (snd R))))) 48 16
           = load (dump (fst (snd (snd (snd R))))) (nat (trailer_block_of 0) * MIFARE_BLOCK_SIZE) 6
             @ [0xFF, 0x07, 0x80, 0x69, 0, 0, 0, 0, 0, 0]"
    by (simp add: R_def eval_defs read_eval_defs)
  from h2 have f: "fst (readSectorWithCache ?t ?k 0 [] [] MifareTool_new world0) = SUCCESS"
    by (metis fst_conv)
  from a b have "load (dump (fst (snd (snd (snd R))))) 48 16
     = [0xFF, 0xFF, 0xFF, 0xFF, 0xFF, 0xFF, 0xFF, 0x07, 0x80, 0x69, 0, 0, 0, 0, 0, 0]"
    by (simp add: default_key_def)
  with f show ?thesis by (simp add: R_def)
qed

section \<open>A trailer block from 64 up in a selective write\<close>

text \<open>
  C1 (as the specification has it) fails on the batch \<open>[67, 5]\<close> with a loaded 4K dump and
  a card in factory state on the reader.  Block 67 is the trailer of sector 16.  The
  batch does not stop there: the card is detected, sector 1 is authenticated, block 5 is
  written, and the result is a success that reports one block written.
\<close>

theorem protected_trailer_67_passed_over:
  "(67::int) = trailer_block_of 16
   \<and> fst (writeMifareBlocksSelective factory_card_transport [''FFFFFFFFFFFF''] [67, 5]
         (manager_with loaded_4k (mifare_tag ''Mifare Classic 4K'' 40)) world0)
       = \<lparr>success = True, message = ''Successfully wrote 1 blocks'', code = 0\<rparr>
   \<and> calls (snd (snd (writeMifareBlocksSelective factory_card_transport [''FFFFFFFFFFFF'']
         [67, 5] (manager_with loaded_4k (mifare_tag ''Mifare Classic 4K'' 40)) world0)))
       = [ReadPassiveTargetID 100,
          AuthenticateBlock [0x04, 0xA1, 0xB2, 0xC3] 64 0 default_key,
          ReadPassiveTargetID 500,
          AuthenticateBlock [0x04, 0xA1, 0xB2, 0xC3] 4 0 default_key,
          WriteDataBlock 5 [0, 0, 0, 0, 0, 0, 0, 0, 0, 0, 0, 0, 0, 0, 0, 0]]"
  by (simp add: trailer_block_of_def geometry_defs writeMifareBlocksSelective_def
      hasValidData_def beginMifare_def manager_with_def mifare_tag_def
      write_single_block_headless_def wait_for_card.simps writeSingleBlock_def
      eval_defs factory_card_transport_def loaded_4k_def UID_BLOCK_def
      String_DEC_def dec_digits.simps SINGLE_BLOCK_TIMEOUT_MS_def c_div_def upt_rec)

section \<open>Memory lines of a Mifare dump file\<close>

lemma below_16: "list_all P [0..<16] \<Longrightarrow> n < 16 \<Longrightarrow> P n"
  by (simp add: list_all_iff)

lemma hexval_hexdigit: "n < 16 \<Longrightarrow> hexval (hexdigit n) = Some n"
  by (rule below_16 [where P = "\<lambda>n. hexval (hexdigit n) = Some n"])
     (simp_all add: upt_rec hexval_def hexdigit_def)

lemma hexdigit_not_space: "n < 16 \<Longrightarrow> \<not> isspace (hexdigit n)"
  by (rule below_16 [where P = "\<lambda>n. \<not> isspace (hexdigit n)"])
     (simp_all add: upt_rec isspace_def hexdigit_def)

lemma hexdigit_plain:
  "n < 16 \<Longrightarrow> hexdigit n \<notin> {CHR '' '', CHR ''-'', CHR ''+'', CHR ''x'', CHR ''X'', CHR 0x0A, CHR 0x0D, CHR '':''}"
  by (rule below_16 [where P = "\<lambda>n. hexdigit n \<notin> {CHR '' '', CHR ''-'', CHR ''+'', CHR ''x'', CHR ''X'', CHR 0x0A, CHR 0x0D, CHR '':''}"])
     (simp_all add: upt_rec hexdigit_def)

lemma hex2_digits: "hex2 v = [hexdigit (unat v div 16), hexdigit (unat v mod 16)]"
proof (cases "v < 0x10")
  case True
  then have "unat v < 16" by (simp add: word_less_nat_alt)
  with True show ?thesis by (simp add: hex2_def String_HEX_def hexdigit_def)
next
  case False
  then have "\<not> unat v < 16" by (simp add: word_less_nat_alt)
  with False show ?thesis by (simp add: hex2_def String_HEX_def)
qed

lemma unat_byte_div: "unat (v::byte) div 16 < 16"
proof -
  have "unat v < 2 ^ LENGTH(8)" by (rule unsigned_less)
  then have "unat v < 256" by simp
  then show ?thesis by simp
qed

lemma length_hex2: "length (hex2 v) = 2"
  by (simp add: hex2_digits)

lemma strtoul16_hex2: "strtoul16 (hex2 v) = unat v"
proof -
  let ?h = "unat v div 16" and ?l = "unat v mod 16"
  have h: "?h < 16" by (rule unat_byte_div)
  have l: "?l < 16" by simp
  have "unat v < 2 ^ LENGTH(8)" by (rule unsigned_less)
  then have lt: "unat v < 256" by simp
  from hexdigit_plain [OF h] hexdigit_plain [OF l] hexdigit_not_space [OF h]
       hexval_hexdigit [OF h] hexval_hexdigit [OF l] lt
  show ?thesis
    by (simp add: hex2_digits strtoul16_def Let_def)
qed

lemma byte_of_hex_hex2: "byte_of_hex (hex2 v) = v"
  by (simp add: byte_of_hex_def strtoul16_hex2)

lemma remove_space_hex2: "remove_char CHR '' '' (hex2 v) = hex2 v"
  using hexdigit_plain [OF unat_byte_div [of v]] hexdigit_plain [of "unat v mod 16"]
  by (simp add: remove_char_def hex2_digits)


lemma page_data_groups:
  "page_data e block
     = space_separated (map hex2 (load (dump e) (block * MIFARE_BLOCK_SIZE) MIFARE_BLOCK_SIZE))"
  by (simp add: page_data_def load_def MIFARE_BLOCK_SIZE_def upt_rec)

lemma length_page_data: "length (page_data e block) = 47"
  by (simp add: page_data_def MIFARE_BLOCK_SIZE_def upt_rec length_hex2)

lemma remove_space_page_data:
  "remove_char CHR '' '' (page_data e block)
     = concat (map hex2 (load (dump e) (block * MIFARE_BLOCK_SIZE) MIFARE_BLOCK_SIZE))"
proof -
  have f: "\<And>v. filter (\<lambda>x. x \<noteq> CHR '' '') (hex2 v) = hex2 v"
    using remove_space_hex2 by (simp add: remove_char_def)
  show ?thesis
    by (simp add: page_data_def load_def MIFARE_BLOCK_SIZE_def upt_rec remove_char_def f)
qed

lemma substring_concat_pairs:
  "\<forall>g \<in> set gs. length g = 2 \<Longrightarrow> i < length gs
     \<Longrightarrow> substring (concat gs) (i * 2) (i * 2 + 2) = gs ! i"
proof (induction gs arbitrary: i)
  case Nil
  then show ?case by simp
next
  case (Cons g gs)
  show ?case
  proof (cases i)
    case 0
    with Cons.prems show ?thesis by (simp add: substring_def)
  next
    case (Suc j)
    with Cons.prems have "substring (concat gs) (j * 2) (j * 2 + 2) = gs ! j"
      by (intro Cons.IH) auto
    with Suc Cons.prems show ?thesis by (simp add: substring_def)
  qed
qed

lemma hexStringToBytes_concat_hex2:
  "length bs \<le> max_len \<Longrightarrow> hexStringToBytes (concat (map hex2 bs)) max_len = bs"
proof -
  assume le: "length bs \<le> max_len"
  have len: "length (concat (map hex2 bs)) = 2 * length bs"
    by (induction bs) (simp_all add: length_hex2)
  have "map (\<lambda>i. byte_of_hex (substring (concat (map hex2 bs)) (i * 2) (i * 2 + 2))) [0..<length bs]
          = map (\<lambda>i. bs ! i) [0..<length bs]"
  proof (rule map_cong [OF refl])
    fix i assume "i \<in> set [0..<length bs]"
    then have i: "i < length (map hex2 bs)" by simp
    have "substring (concat (map hex2 bs)) (i * 2) (i * 2 + 2) = map hex2 bs ! i"
      by (rule substring_concat_pairs [OF _ i]) (simp add: length_hex2)
    with i show "byte_of_hex (substring (concat (map hex2 bs)) (i * 2) (i * 2 + 2)) = bs ! i"
      by (simp add: byte_of_hex_hex2)
  qed
  with le len show ?thesis
    by (simp add: hexStringToBytes_def map_nth min_def)
qed

lemma length_load: "length (load a off n) = n"
  by (simp add: load_def)

lemma read_lines_line:
  "CHR 0x0A \<notin> set l \<Longrightarrow> read_lines cur (l @ CHR 0x0A # rest) = (cur @ l) # read_lines [] rest"
  by (induction l arbitrary: cur) auto

lemma file_lines_println:
  "CHR 0x0A \<notin> set l \<Longrightarrow> file_lines (println l @ rest) = (l @ [CHR 0x0D]) # file_lines rest"
  using read_lines_line [of "l @ [CHR 0x0D]" "[]" rest]
  by (simp add: file_lines_def println_def)

lemma dec_digit_no_lf: "n < 10 \<Longrightarrow> ''0123456789'' ! n \<noteq> CHR 0x0A"
proof -
  have "list_all (\<lambda>n. ''0123456789'' ! n \<noteq> CHR 0x0A) [0..<10]"
    by (simp add: upt_rec)
  then show "n < 10 \<Longrightarrow> ''0123456789'' ! n \<noteq> CHR 0x0A"
    by (simp add: list_all_iff)
qed

lemma dec_digits_no_lf: "CHR 0x0A \<notin> set (dec_digits n)"
proof (induction n rule: dec_digits.induct)
  case (1 n)
  show ?case
  proof (cases "n < 10")
    case True
    then show ?thesis using dec_digit_no_lf [of n] by (subst dec_digits.simps) simp
  next
    case False
    have "n mod 10 < 10" by simp
    then have "''0123456789'' ! (n mod 10) \<noteq> CHR 0x0A" by (rule dec_digit_no_lf)
    with False 1 show ?thesis by (subst dec_digits.simps) simp
  qed
qed

lemma String_DEC_no_lf: "CHR 0x0A \<notin> set (String_DEC i)"
  by (simp add: String_DEC_def dec_digits_no_lf)

lemma hexdigit_not_lf: "n < 16 \<Longrightarrow> CHR 0x0A \<noteq> hexdigit n"
  by (rule below_16 [where P = "\<lambda>n. CHR 0x0A \<noteq> hexdigit n"])
     (simp_all add: upt_rec hexdigit_def)

lemma hex2_no_lf: "CHR 0x0A \<notin> set (hex2 v)"
  by (simp add: hex2_digits hexdigit_not_lf unat_byte_div)

lemma toupper_no_lf: "CHR 0x0A \<noteq> c \<Longrightarrow> CHR 0x0A \<noteq> toupper c"
  by (auto simp: toupper_def split: option.splits if_splits)

lemma toUpperCase_no_lf: "CHR 0x0A \<notin> set s \<Longrightarrow> CHR 0x0A \<notin> set (toUpperCase s)"
  unfolding toUpperCase_def by (induction s) (simp_all add: toupper_no_lf)

lemma uidToString_no_lf: "CHR 0x0A \<notin> set (uidToString e)"
  unfolding uidToString_def
  by (rule toUpperCase_no_lf) (auto simp: hex2_no_lf)

lemma cardTypeToString_no_lf: "CHR 0x0A \<notin> set (cardTypeToString ct)"
  by (cases ct) (simp_all add: cardTypeToString_def)

lemma page_data_no_lf: "CHR 0x0A \<notin> set (page_data e b)"
  unfolding page_data_def by (auto simp: hex2_no_lf)

lemma file_lines_pages:
  "file_lines (concat (map (page_line e) bs))
     = map (\<lambda>b. ''Page '' @ String_DEC (int b) @ '': '' @ page_data e b @ [CHR 0x0D]) bs"
proof (induction bs)
  case Nil
  show ?case by (simp add: file_lines_def)
next
  case (Cons b bs)
  have "CHR 0x0A \<notin> set (''Page '' @ String_DEC (int b) @ '': '' @ page_data e b)"
    by (simp add: String_DEC_no_lf page_data_no_lf)
  from file_lines_println [OF this] Cons show ?case
    by (simp add: page_line_def)
qed

lemma filter_pages:
  "filter (\<lambda>l. startsWith l ''Page '')
          (map (\<lambda>b. ''Page '' @ String_DEC (int b) @ '': '' @ page_data e b @ [CHR 0x0D]) bs)
     = map (\<lambda>b. ''Page '' @ String_DEC (int b) @ '': '' @ page_data e b @ [CHR 0x0D]) bs"
  by (induction bs) (simp_all add: startsWith_def)

lemma skip_header_line:
  "CHR 0x0A \<notin> set l \<Longrightarrow> \<not> startsWith (l @ [CHR 0x0D]) p
     \<Longrightarrow> filter (\<lambda>l. startsWith l p) (file_lines (println l @ rest))
         = filter (\<lambda>l. startsWith l p) (file_lines rest)"
  by (simp add: file_lines_println)

lemma memory_lines_of_file:
  "filter (\<lambda>l. startsWith l ''Page '') (file_lines (writeFileFormat e))
     = map (\<lambda>b. ''Page '' @ String_DEC (int b) @ '': '' @ page_data e b @ [CHR 0x0D])
           [0..<nat (blocks_read e)]"
proof -
  let ?pages = "concat (map (page_line e) [0..<nat (blocks_read e)])"
  have pages: "filter (\<lambda>l. startsWith l ''Page '') (file_lines ?pages)
        = map (\<lambda>b. ''Page '' @ String_DEC (int b) @ '': '' @ page_data e b @ [CHR 0x0D])
           [0..<nat (blocks_read e)]"
    by (simp only: file_lines_pages filter_pages)
  have h10: "CHR 0x0A \<notin> set (''Pages read: '' @ String_DEC (blocks_read e))"
    by (simp add: String_DEC_no_lf)
  have n10: "\<not> startsWith ((''Pages read: '' @ String_DEC (blocks_read e)) @ [CHR 0x0D]) ''Page ''"
    by (simp add: startsWith_def)
  have opt: "filter (\<lambda>l. startsWith l ''Page '')
                  (file_lines ((if blocks_read e < total_blocks e
                                then println (''Pages read: '' @ String_DEC (blocks_read e)) else [])
                               @ ?pages))
        = filter (\<lambda>l. startsWith l ''Page '') (file_lines ?pages)"
  proof (cases "blocks_read e < total_blocks e")
    case True
    then show ?thesis by (simp only: if_True skip_header_line [OF h10 n10])
  next
    case False
    then show ?thesis by (simp only: if_False append_Nil)
  qed
  have h1: "CHR 0x0A \<notin> set ''Filetype: Mifare Classic File''" by simp
  have n1: "\<not> startsWith (''Filetype: Mifare Classic File'' @ [CHR 0x0D]) ''Page ''"
    by (simp add: startsWith_def)
  have h2: "CHR 0x0A \<notin> set ''Version 1''" by simp
  have n2: "\<not> startsWith (''Version 1'' @ [CHR 0x0D]) ''Page ''" by (simp add: startsWith_def)
  have h3: "CHR 0x0A \<notin> set (''Device type: '' @ cardTypeToString (card_type e))"
    by (simp add: cardTypeToString_no_lf)
  have n3: "\<not> startsWith ((''Device type: '' @ cardTypeToString (card_type e)) @ [CHR 0x0D]) ''Page ''"
    by (simp add: startsWith_def)
  have h4: "CHR 0x0A \<notin> set ''# UID, ATQA and SAK are common for all formats''" by simp
  have n4: "\<not> startsWith (''# UID, ATQA and SAK are common for all formats'' @ [CHR 0x0D]) ''Page ''"
    by (simp add: startsWith_def)
  have h5: "CHR 0x0A \<notin> set (''UID: '' @ uidToString e)" by (simp add: uidToString_no_lf)
  have n5: "\<not> startsWith ((''UID: '' @ uidToString e) @ [CHR 0x0D]) ''Page ''"
    by (simp add: startsWith_def)
  have h6: "CHR 0x0A \<notin> set (''SAK: '' @ hex2 (sak e))" by (simp add: hex2_no_lf)
  have n6: "\<not> startsWith ((''SAK: '' @ hex2 (sak e)) @ [CHR 0x0D]) ''Page ''"
    by (simp add: startsWith_def)
  have h7: "CHR 0x0A \<notin> set (''ATQA: '' @ hex2 (atqa e 1) @ '' '' @ hex2 (atqa e 0))"
    by (simp add: hex2_no_lf)
  have n7: "\<not> startsWith ((''ATQA: '' @ hex2 (atqa e 1) @ '' '' @ hex2 (atqa e 0)) @ [CHR 0x0D]) ''Page ''"
    by (simp add: startsWith_def)
  have h8: "CHR 0x0A \<notin> set ''# Memory dump''" by simp
  have n8: "\<not> startsWith (''# Memory dump'' @ [CHR 0x0D]) ''Page ''" by (simp add: startsWith_def)
  have h9: "CHR 0x0A \<notin> set (''Pages total: '' @ String_DEC (total_blocks e))"
    by (simp add: String_DEC_no_lf)
  have n9: "\<not> startsWith ((''Pages total: '' @ String_DEC (total_blocks e)) @ [CHR 0x0D]) ''Page ''"
    by (simp add: startsWith_def)
  show ?thesis
    unfolding writeFileFormat_def
    by (simp only: skip_header_line [OF h1 n1] skip_header_line [OF h2 n2]
          skip_header_line [OF h3 n3] skip_header_line [OF h4 n4] skip_header_line [OF h5 n5]
          skip_header_line [OF h6 n6] skip_header_line [OF h7 n7] skip_header_line [OF h8 n8]
          skip_header_line [OF h9 n9] opt pages)
qed

text \<open>
  C9 (as the code has it).  In the text that \<open>writeFileFormat\<close> produces, the lines that
  start with ``Page '' are, in order, one line for each block below \<open>blocks_read\<close>:
  ``Page N: '' followed by the sixteen bytes of block N, each as two lower-case hexadecimal
  digits, high digit first, joined by single spaces, which makes 47 characters; the line
  ends with a carriage return before the line feed.
\<close>

theorem mfc_page_lines_space_separated:
  "filter (\<lambda>l. startsWith l ''Page '') (file_lines (writeFileFormat e))
     = map (\<lambda>b. ''Page '' @ String_DEC (int b) @ '': ''
                  @ space_separated (map hex2 (load (dump e) (b * MIFARE_BLOCK_SIZE) MIFARE_BLOCK_SIZE))
                  @ [CHR 0x0D])
           [0..<nat (blocks_read e)]
   \<and> length (space_separated
               (map hex2 (load (dump e) (block * MIFARE_BLOCK_SIZE) MIFARE_BLOCK_SIZE))) = 47
   \<and> hex2 v = [''0123456789abcdef'' ! (unat v div 16), ''0123456789abcdef'' ! (unat v mod 16)]"
proof -
  have d: "hex2 v = [''0123456789abcdef'' ! (unat v div 16), ''0123456789abcdef'' ! (unat v mod 16)]"
    using hex2_digits [of v] by (simp only: hexdigit_def)
  show ?thesis
    unfolding page_data_groups [symmetric]
    by (simp only: memory_lines_of_file length_page_data d simp_thms)
qed

text \<open>
  C9 (as the specification has it) fails on the first memory line of a blank 1K dump: the
  line carries 47 characters after ``Page 0: '', not 32.
\<close>

theorem page_line_not_32_hex:
  "page_line loaded_1k 0 = ''Page 0: 00 00 00 00 00 00 00 00 00 00 00 00 00 00 00 00'' @ [CHR 0x0D, CHR 0x0A]
   \<and> \<not> (\<exists>hexs. length hexs = 32 \<and> list_all isxdigit hexs
              \<and> page_line loaded_1k 0 = println (''Page 0: '' @ hexs))"
proof -
  have eq: "page_line loaded_1k 0
              = ''Page 0: 00 00 00 00 00 00 00 00 00 00 00 00 00 00 00 00'' @ [CHR 0x0D, CHR 0x0A]"
    by (simp add: page_line_def page_data_def println_def loaded_1k_def MifareTool_new_def
          MIFARE_BLOCK_SIZE_def upt_rec hex2_def String_HEX_def hexdigit_def String_DEC_def
          dec_digits.simps)
  have "\<not> (\<exists>hexs. length hexs = 32 \<and> list_all isxdigit hexs
              \<and> page_line loaded_1k 0 = println (''Page 0: '' @ hexs))"
  proof
    assume "\<exists>hexs. length hexs = 32 \<and> list_all isxdigit hexs
              \<and> page_line loaded_1k 0 = println (''Page 0: '' @ hexs)"
    then obtain hexs where l: "length hexs = 32"
      and p: "page_line loaded_1k 0 = println (''Page 0: '' @ hexs)" by blast
    from p have "length (page_line loaded_1k 0) = length (println (''Page 0: '' @ hexs))" by simp
    with l show False by (simp add: eq println_def)
  qed
  with eq show ?thesis by simp
qed

section \<open>Round trip through a Mifare dump file\<close>

lemma dropWhile_hd: "s \<noteq> [] \<Longrightarrow> \<not> P (hd s) \<Longrightarrow> dropWhile P s = s"
  by (cases s) simp_all

lemma trim_id: "s \<noteq> [] \<Longrightarrow> \<not> isspace (hd s) \<Longrightarrow> \<not> isspace (last s) \<Longrightarrow> trim s = s"
proof -
  assume s: "s \<noteq> []" and h: "\<not> isspace (hd s)" and l: "\<not> isspace (last s)"
  from s l have "dropWhile isspace (rev s) = rev s"
    by (intro dropWhile_hd) (simp_all add: hd_rev)
  with s h show ?thesis by (simp add: trim_def dropWhile_hd)
qed

lemma trim_line:
  "s \<noteq> [] \<Longrightarrow> \<not> isspace (hd s) \<Longrightarrow> \<not> isspace (last s) \<Longrightarrow> trim (s @ [CHR 0x0D]) = s"
proof -
  assume s: "s \<noteq> []" and h: "\<not> isspace (hd s)" and l: "\<not> isspace (last s)"
  from s h have a: "dropWhile isspace (s @ [CHR 0x0D]) = s @ [CHR 0x0D]"
    by (intro dropWhile_hd) simp_all
  from s l have b: "dropWhile isspace (rev s) = rev s"
    by (intro dropWhile_hd) (simp_all add: hd_rev)
  show ?thesis by (simp add: trim_def a b isspace_def)
qed

lemma hex2_ends:
  "hex2 v \<noteq> []" "\<not> isspace (hd (hex2 v))" "\<not> isspace (last (hex2 v))"
  by (simp_all add: hex2_digits hexdigit_not_space unat_byte_div)

lemma dec_digit_plain:
  "n < 10 \<Longrightarrow> \<not> isspace (''0123456789'' ! n) \<and> ''0123456789'' ! n \<noteq> CHR '':''"
proof -
  have "list_all (\<lambda>n. \<not> isspace (''0123456789'' ! n) \<and> ''0123456789'' ! n \<noteq> CHR '':'') [0..<10]"
    by (simp add: upt_rec isspace_def)
  then show "n < 10 \<Longrightarrow> \<not> isspace (''0123456789'' ! n) \<and> ''0123456789'' ! n \<noteq> CHR '':''"
    by (simp add: list_all_iff)
qed

lemma dec_digits_plain: "\<forall>c \<in> set (dec_digits n). \<not> isspace c \<and> c \<noteq> CHR '':''"
proof (induction n rule: dec_digits.induct)
  case (1 n)
  show ?case
  proof (cases "n < 10")
    case True
    then show ?thesis using dec_digit_plain [of n] by (subst dec_digits.simps) simp
  next
    case False
    have "n mod 10 < 10" by simp
    then have "\<not> isspace (''0123456789'' ! (n mod 10)) \<and> ''0123456789'' ! (n mod 10) \<noteq> CHR '':''"
      by (rule dec_digit_plain)
    with False 1 show ?thesis by (subst dec_digits.simps) auto
  qed
qed

lemma dec_digits_nonempty: "dec_digits n \<noteq> []"
  by (subst dec_digits.simps) simp

lemma String_DEC_plain: "\<forall>c \<in> set (String_DEC i). \<not> isspace c \<and> c \<noteq> CHR '':''"
  using dec_digits_plain by (auto simp: String_DEC_def isspace_def)

lemma String_DEC_ends: "String_DEC i \<noteq> []" "\<not> isspace (last (String_DEC i))"
proof -
  show ne: "String_DEC i \<noteq> []" by (simp add: String_DEC_def dec_digits_nonempty)
  then have "last (String_DEC i) \<in> set (String_DEC i)" by (rule last_in_set)
  with String_DEC_plain show "\<not> isspace (last (String_DEC i))" by blast
qed

text \<open>Header lines that the reader ignores.\<close>

lemma parse_line_filetype: "parse_line (''Filetype: Mifare Classic File'' @ [CHR 0x0D]) x = x"
  by (simp add: parse_line_def trim_def isspace_def startsWith_def Let_def)

lemma parse_line_version: "parse_line (''Version 1'' @ [CHR 0x0D]) x = x"
  by (simp add: parse_line_def trim_def isspace_def startsWith_def Let_def)

lemma parse_line_comment1:
  "parse_line (''# UID, ATQA and SAK are common for all formats'' @ [CHR 0x0D]) x = x"
  by (simp add: parse_line_def trim_def isspace_def startsWith_def Let_def)

lemma parse_line_comment2: "parse_line (''# Memory dump'' @ [CHR 0x0D]) x = x"
  by (simp add: parse_line_def trim_def isspace_def startsWith_def Let_def)

lemma parse_line_pages_total:
  "parse_line ((''Pages total: '' @ String_DEC n) @ [CHR 0x0D]) x = x"
proof -
  have "trim ((''Pages total: '' @ String_DEC n) @ [CHR 0x0D]) = ''Pages total: '' @ String_DEC n"
  proof (rule trim_line)
    show "\<not> isspace (hd (''Pages total: '' @ String_DEC n))" by (simp add: isspace_def)
    show "\<not> isspace (last (''Pages total: '' @ String_DEC n))" by (simp add: String_DEC_ends)
  qed simp
  then show ?thesis
    by (simp add: parse_line_def startsWith_def Let_def)
qed

lemma parse_line_pages_read:
  "parse_line ((''Pages read: '' @ String_DEC n) @ [CHR 0x0D]) x = x"
proof -
  have "trim ((''Pages read: '' @ String_DEC n) @ [CHR 0x0D]) = ''Pages read: '' @ String_DEC n"
  proof (rule trim_line)
    show "\<not> isspace (hd (''Pages read: '' @ String_DEC n))" by (simp add: isspace_def)
    show "\<not> isspace (last (''Pages read: '' @ String_DEC n))" by (simp add: String_DEC_ends)
  qed simp
  then show ?thesis
    by (simp add: parse_line_def startsWith_def Let_def)
qed

lemma parse_line_device_type:
  "parse_line ((''Device type: '' @ cardTypeToString ct) @ [CHR 0x0D]) x
     = (case ct of CARD_UNKNOWN \<Rightarrow> x | _ \<Rightarrow> x\<lparr>card_type := ct\<rparr>)"
  by (cases ct)
     (simp_all add: parse_line_def trim_def isspace_def startsWith_def Let_def cardTypeToString_def
        substring_from_def indexOfStr_def)

lemma parse_line_sak:
  "parse_line ((''SAK: '' @ hex2 v) @ [CHR 0x0D]) x = x\<lparr>sak := v\<rparr>"
proof -
  have "trim ((''SAK: '' @ hex2 v) @ [CHR 0x0D]) = ''SAK: '' @ hex2 v"
  proof (rule trim_line)
    show "\<not> isspace (hd (''SAK: '' @ hex2 v))" by (simp add: isspace_def)
    show "\<not> isspace (last (''SAK: '' @ hex2 v))" by (simp add: hex2_ends)
  qed simp
  then show ?thesis
    by (simp add: parse_line_def startsWith_def Let_def substring_from_def
          trim_id [OF hex2_ends] byte_of_hex_hex2)
qed

lemma hexStringToBytes_two: "hexStringToBytes (hex2 a @ hex2 b) 2 = [a, b]"
  using hexStringToBytes_concat_hex2 [of "[a, b]" 2] by simp

lemma parse_line_atqa:
  "parse_line ((''ATQA: '' @ hex2 a @ '' '' @ hex2 b) @ [CHR 0x0D]) x
     = x\<lparr>atqa := store (atqa x) 0 [a, b]\<rparr>"
proof -
  have t1: "trim ((''ATQA: '' @ hex2 a @ '' '' @ hex2 b) @ [CHR 0x0D])
              = ''ATQA: '' @ hex2 a @ '' '' @ hex2 b"
  proof (rule trim_line)
    show "\<not> isspace (hd (''ATQA: '' @ hex2 a @ '' '' @ hex2 b))" by (simp add: isspace_def)
    show "\<not> isspace (last (''ATQA: '' @ hex2 a @ '' '' @ hex2 b))" by (simp add: hex2_ends)
  qed simp
  have t2: "trim (hex2 a @ '' '' @ hex2 b) = hex2 a @ '' '' @ hex2 b"
    by (rule trim_id) (simp_all add: hex2_ends)
  have r: "remove_char CHR '' '' (hex2 a @ '' '' @ hex2 b) = hex2 a @ hex2 b"
    using remove_space_hex2 [of a] remove_space_hex2 [of b] by (simp add: remove_char_def)
  from t1 t2 r show ?thesis
    by (simp add: parse_line_def startsWith_def Let_def substring_from_def
          hexStringToBytes_two MIFARE_ATQA_SIZE_def)
qed

lemma take_upt_min: "take m [0..<k] = [0..<min m k]"
proof (cases "m \<le> k")
  case True
  then show ?thesis by (simp add: min_def)
next
  case False
  then show ?thesis by (simp add: min_def)
qed

lemma hexStringToBytes_groups:
  assumes len2: "\<And>v. length (g v) = 2" and dec: "\<And>v. byte_of_hex (g v) = v"
  shows "hexStringToBytes (concat (map g bs)) m = take m bs"
proof -
  have len: "length (concat (map g bs)) = 2 * length bs"
    by (induction bs) (simp_all add: len2)
  have "map (\<lambda>i. byte_of_hex (substring (concat (map g bs)) (i * 2) (i * 2 + 2)))
            [0..<min (length bs) m]
          = map (\<lambda>i. bs ! i) [0..<min (length bs) m]"
  proof (rule map_cong [OF refl])
    fix i assume "i \<in> set [0..<min (length bs) m]"
    then have i: "i < length (map g bs)" by simp
    have "substring (concat (map g bs)) (i * 2) (i * 2 + 2) = map g bs ! i"
      by (rule substring_concat_pairs [OF _ i]) (simp add: len2)
    with i show "byte_of_hex (substring (concat (map g bs)) (i * 2) (i * 2 + 2)) = bs ! i"
      by (simp add: dec)
  qed
  also have "\<dots> = take m (map (\<lambda>i. bs ! i) [0..<length bs])"
    by (simp add: take_map take_upt_min min.commute)
  also have "\<dots> = take m bs" by (simp add: map_nth)
  finally show ?thesis by (simp add: hexStringToBytes_def len)
qed

text \<open>Upper-case hexadecimal digits, as in the ``UID'' line.\<close>

lemma upper_hexdigit:
  "n < 16 \<Longrightarrow> hexval (toupper (hexdigit n)) = Some n \<and> \<not> isspace (toupper (hexdigit n))
     \<and> toupper (hexdigit n) \<notin> {CHR '' '', CHR '':'', CHR ''-'', CHR ''+'', CHR ''x'', CHR ''X''}"
  by (rule below_16 [where P = "\<lambda>n. hexval (toupper (hexdigit n)) = Some n
        \<and> \<not> isspace (toupper (hexdigit n))
        \<and> toupper (hexdigit n) \<notin> {CHR '' '', CHR '':'', CHR ''-'', CHR ''+'', CHR ''x'', CHR ''X''}"])
     (simp_all add: upt_rec hexval_def hexdigit_def toupper_def isspace_def)

lemma upper_hex2_digits:
  "toUpperCase (hex2 v) = [toupper (hexdigit (unat v div 16)), toupper (hexdigit (unat v mod 16))]"
  by (simp add: toUpperCase_def hex2_digits)

lemma byte_of_hex_upper_hex2: "byte_of_hex (toUpperCase (hex2 v)) = v"
proof -
  let ?h = "unat v div 16" and ?l = "unat v mod 16"
  have h: "?h < 16" by (rule unat_byte_div)
  have l: "?l < 16" by simp
  have "unat v < 2 ^ LENGTH(8)" by (rule unsigned_less)
  then have lt: "unat v < 256" by simp
  from upper_hexdigit [OF h] upper_hexdigit [OF l] lt
  have "strtoul16 (toUpperCase (hex2 v)) = unat v"
    by (simp add: upper_hex2_digits strtoul16_def Let_def)
  then show ?thesis by (simp add: byte_of_hex_def)
qed

lemma upper_hex2_filter:
  "filter (\<lambda>x. x \<noteq> CHR '':'') (filter (\<lambda>x. x \<noteq> CHR '' '') (toUpperCase (hex2 v)))
     = toUpperCase (hex2 v)"
  using upper_hexdigit [OF unat_byte_div [of v]] upper_hexdigit [of "unat v mod 16"]
  by (simp add: upper_hex2_digits)

lemma filter_map_concat:
  "(\<And>x. x \<in> set xs \<Longrightarrow> filter P (filter Q (map h (f x))) = g x)
     \<Longrightarrow> filter P (filter Q (map h (concat (map f xs)))) = concat (map g xs)"
  by (induction xs) simp_all

lemma uid_str_clean:
  "remove_char CHR '':'' (remove_char CHR '' '' (uidToString e))
     = concat (map (\<lambda>v. toUpperCase (hex2 v)) (load (uid e) 0 (uid_length e)))"
proof -
  have sp: "toupper CHR '' '' = CHR '' ''" by (simp add: toupper_def)
  have piece: "filter (\<lambda>x. x \<noteq> CHR '':'') (filter (\<lambda>x. x \<noteq> CHR '' '')
                 (map toupper (hex2 (uid e i) @ (if int i < int (uid_length e) - 1 then '' '' else []))))
        = map toupper (hex2 (uid e i))" for i
    using upper_hex2_filter [of "uid e i"] by (simp add: toUpperCase_def sp)
  have "filter (\<lambda>x. x \<noteq> CHR '':'') (filter (\<lambda>x. x \<noteq> CHR '' '')
          (map toupper (concat (map (\<lambda>i. hex2 (uid e i)
                 @ (if int i < int (uid_length e) - 1 then '' '' else [])) [0..<uid_length e]))))
        = concat (map (\<lambda>i. map toupper (hex2 (uid e i))) [0..<uid_length e])"
    by (rule filter_map_concat) (rule piece)
  then show ?thesis
    by (simp add: uidToString_def remove_char_def toUpperCase_def load_def comp_def)
qed

lemma uidToString_ends:
  assumes "0 < uid_length e"
  shows "uidToString e \<noteq> []" "\<not> isspace (hd (uidToString e))" "\<not> isspace (last (uidToString e))"
proof -
  let ?n = "uid_length e"
  let ?f = "\<lambda>i. hex2 (uid e i) @ (if int i < int ?n - 1 then '' '' else [])"
  have first: "[0..<?n] = 0 # [1..<?n]" using assms by (simp add: upt_conv_Cons)
  obtain k where k: "?n = Suc k" using assms by (cases ?n) simp_all
  then have lst: "[0..<?n] = [0..<k] @ [k]" by simp
  have fk: "?f k = hex2 (uid e k)" using k by simp
  have u1: "uidToString e = toUpperCase (?f 0 @ concat (map ?f [1..<?n]))"
    unfolding uidToString_def by (subst first) simp
  have u2: "uidToString e = toUpperCase (concat (map ?f [0..<k])) @ toUpperCase (hex2 (uid e k))"
    unfolding uidToString_def by (subst lst) (simp add: toUpperCase_def fk del: upt_Suc)
  from u1 show "uidToString e \<noteq> []" by (simp add: toUpperCase_def hex2_digits)
  from u1 upper_hexdigit [OF unat_byte_div [of "uid e 0"]]
  show "\<not> isspace (hd (uidToString e))" by (simp add: toUpperCase_def hex2_digits)
  from upper_hexdigit [of "unat (uid e k) mod 16"]
  show "\<not> isspace (last (uidToString e))" by (simp add: u2 upper_hex2_digits)
qed

lemma parse_line_uid:
  "parse_line ((''UID: '' @ uidToString e) @ [CHR 0x0D]) x
     = x\<lparr>uid_length := uid_length e mod 256,
         uid := store (uid x) 0 (take MIFARE_UID_MAX_SIZE (load (uid e) 0 (uid_length e)))\<rparr>"
proof (cases "uid_length e = 0")
  case True
  then have "uidToString e = []" by (simp add: uidToString_def toUpperCase_def)
  with True show ?thesis
    by (simp add: parse_line_def trim_def isspace_def startsWith_def Let_def substring_from_def
          remove_char_def hexStringToBytes_def load_def)
next
  case False
  then have pos: "0 < uid_length e" by simp
  have t1: "trim ((''UID: '' @ uidToString e) @ [CHR 0x0D]) = ''UID: '' @ uidToString e"
  proof (rule trim_line)
    show "\<not> isspace (hd (''UID: '' @ uidToString e))" by (simp add: isspace_def)
    show "\<not> isspace (last (''UID: '' @ uidToString e))"
      by (simp add: uidToString_ends [OF pos])
  qed simp
  have t2: "trim (uidToString e) = uidToString e"
    by (rule trim_id) (rule uidToString_ends [OF pos])+
  have len: "length (concat (map (\<lambda>v. toUpperCase (hex2 v)) (load (uid e) 0 (uid_length e))))
               = 2 * uid_length e"
    by (simp add: length_concat comp_def toUpperCase_def length_hex2 load_def sum_list_triv)
  have dec: "hexStringToBytes
               (concat (map (\<lambda>v. toUpperCase (hex2 v)) (load (uid e) 0 (uid_length e))))
               MIFARE_UID_MAX_SIZE
             = take MIFARE_UID_MAX_SIZE (load (uid e) 0 (uid_length e))"
    by (rule hexStringToBytes_groups) (simp_all add: toUpperCase_def length_hex2
          byte_of_hex_upper_hex2 [unfolded toUpperCase_def])
  from t1 t2 show ?thesis
    by (simp add: parse_line_def startsWith_def Let_def substring_from_def uid_str_clean len dec)
qed

lemma find_char_skip: "c \<notin> set p \<Longrightarrow> find_char c (p @ c # rest) i = int (i + length p)"
  by (induction p arbitrary: i) auto

lemma drop_length_append: "drop (length xs) (xs @ ys) = ys"
  by simp

lemma trim_space_Cons: "trim (CHR '' '' # s) = trim s"
  by (simp add: trim_def isspace_def)

lemma page_data_ends:
  "page_data e b \<noteq> []" "\<not> isspace (hd (page_data e b))" "\<not> isspace (last (page_data e b))"
  by (simp_all add: page_data_def MIFARE_BLOCK_SIZE_def upt_rec hex2_digits hexdigit_not_space
        unat_byte_div)

lemma length_block_hex: "length (concat (map hex2 (load a off MIFARE_BLOCK_SIZE))) = 32"
  by (simp add: load_def MIFARE_BLOCK_SIZE_def upt_rec length_hex2)

lemma parse_line_page_step:
  assumes "trim raw = line"
    and "\<not> startsWith line ''Device type:''" and "\<not> startsWith line ''UID:''"
    and "\<not> startsWith line ''SAK:''" and "\<not> startsWith line ''ATQA:''"
    and "startsWith line ''Page ''"
    and "indexOf line CHR '':'' = colon_pos" and "colon_pos > 0"
    and "remove_char CHR '' '' (trim (substring_from line (nat (colon_pos + 1)))) = data_str"
    and "length data_str = 32"
    and "hexStringToBytes data_str MIFARE_BLOCK_SIZE = bytes"
  shows "parse_line raw x
           = x\<lparr>dump := store (dump x) (nat (blocks_read x) * MIFARE_BLOCK_SIZE) bytes,
               blocks_read := blocks_read x + 1\<rparr>"
  using assms by (simp add: parse_line_def Let_def MIFARE_BLOCK_SIZE_def)

lemma parse_line_page:
  "parse_line ((''Page '' @ String_DEC (int b) @ '': '' @ page_data e b) @ [CHR 0x0D]) x
     = x\<lparr>dump := store (dump x) (nat (blocks_read x) * MIFARE_BLOCK_SIZE)
                  (load (dump e) (b * MIFARE_BLOCK_SIZE) MIFARE_BLOCK_SIZE),
         blocks_read := blocks_read x + 1\<rparr>"
proof (rule parse_line_page_step)
  let ?dec = "String_DEC (int b)" and ?pd = "page_data e b"
  let ?line = "''Page '' @ ?dec @ '': '' @ ?pd"
  show "trim (?line @ [CHR 0x0D]) = ?line"
  proof (rule trim_line)
    show "\<not> isspace (hd ?line)" by (simp add: isspace_def)
    show "\<not> isspace (last ?line)" by (simp add: page_data_ends)
  qed simp
  show "\<not> startsWith ?line ''Device type:''" by (simp add: startsWith_def)
  show "\<not> startsWith ?line ''UID:''" by (simp add: startsWith_def)
  show "\<not> startsWith ?line ''SAK:''" by (simp add: startsWith_def)
  show "\<not> startsWith ?line ''ATQA:''" by (simp add: startsWith_def)
  show "startsWith ?line ''Page ''" by (simp add: startsWith_def)
  have colon: "CHR '':'' \<notin> set ?dec" using String_DEC_plain by blast
  show ip: "indexOf ?line CHR '':'' = int (5 + length ?dec)"
    using find_char_skip [OF colon, of "'' '' @ ?pd" "Suc (Suc (Suc (Suc (Suc 0))))"]
    by (simp add: indexOf_def)
  show "int (5 + length ?dec) > 0" by simp
  have "nat (int (5 + length ?dec) + 1) = length (''Page '' @ ?dec @ '':'')" by simp
  then have "substring_from ?line (nat (int (5 + length ?dec) + 1))
               = drop (length (''Page '' @ ?dec @ '':'')) ((''Page '' @ ?dec @ '':'') @ '' '' @ ?pd)"
    by (simp add: substring_from_def)
  also have "\<dots> = '' '' @ ?pd" by (rule drop_length_append)
  finally have sub: "substring_from ?line (nat (int (5 + length ?dec) + 1)) = '' '' @ ?pd" .
  have "trim ('' '' @ ?pd) = ?pd"
    using trim_id [OF page_data_ends] by (simp add: trim_space_Cons)
  with sub show "remove_char CHR '' '' (trim (substring_from ?line (nat (int (5 + length ?dec) + 1))))
        = concat (map hex2 (load (dump e) (b * MIFARE_BLOCK_SIZE) MIFARE_BLOCK_SIZE))"
    by (simp add: remove_space_page_data)
  show "length (concat (map hex2 (load (dump e) (b * MIFARE_BLOCK_SIZE) MIFARE_BLOCK_SIZE))) = 32"
    by (rule length_block_hex)
  show "hexStringToBytes (concat (map hex2 (load (dump e) (b * MIFARE_BLOCK_SIZE) MIFARE_BLOCK_SIZE)))
          MIFARE_BLOCK_SIZE = load (dump e) (b * MIFARE_BLOCK_SIZE) MIFARE_BLOCK_SIZE"
    by (rule hexStringToBytes_concat_hex2) (simp add: length_load)
qed

text \<open>Reading the memory lines of a written file in order copies the blocks one after
  the other.\<close>

lemma fold_page_lines:
  "blocks_read x = 0 \<Longrightarrow>
   fold parse_line
        (map (\<lambda>b. ''Page '' @ String_DEC (int b) @ '': '' @ page_data e b @ [CHR 0x0D]) [0..<n]) x
     = x\<lparr>dump := (\<lambda>i. if i < n * MIFARE_BLOCK_SIZE then dump e i else dump x i),
         blocks_read := int n\<rparr>"
proof (induction n)
  case 0
  then show ?case by simp
next
  case (Suc n)
  have st: "store (\<lambda>i. if i < n * MIFARE_BLOCK_SIZE then dump e i else dump x i)
              (n * MIFARE_BLOCK_SIZE) (load (dump e) (n * MIFARE_BLOCK_SIZE) MIFARE_BLOCK_SIZE)
            = (\<lambda>i. if i < Suc n * MIFARE_BLOCK_SIZE then dump e i else dump x i)"
    by (rule ext) (auto simp: store_def load_def)
  have pl: "parse_line (''Page '' @ String_DEC (int n) @ '': '' @ page_data e n @ [CHR 0x0D]) y
          = y\<lparr>dump := store (dump y) (nat (blocks_read y) * MIFARE_BLOCK_SIZE)
                  (load (dump e) (n * MIFARE_BLOCK_SIZE) MIFARE_BLOCK_SIZE),
         blocks_read := blocks_read y + 1\<rparr>" for y
    using parse_line_page [of n e y] by simp
  let ?g = "\<lambda>b. ''Page '' @ String_DEC (int b) @ '': '' @ page_data e b @ [CHR 0x0D]"
  let ?xn = "x\<lparr>dump := (\<lambda>i. if i < n * MIFARE_BLOCK_SIZE then dump e i else dump x i),
               blocks_read := int n\<rparr>"
  have "fold parse_line (map ?g [0..<Suc n]) x
          = parse_line (?g n) (fold parse_line (map ?g [0..<n]) x)"
    by (simp only: upt_Suc_append [OF le0] map_append list.map fold_append fold_simps
          comp_apply id_apply)
  also have "\<dots> = parse_line (?g n) ?xn"
    using Suc by (simp only:)
  also have "\<dots> = ?xn\<lparr>dump := store (dump ?xn) (nat (blocks_read ?xn) * MIFARE_BLOCK_SIZE)
                  (load (dump e) (n * MIFARE_BLOCK_SIZE) MIFARE_BLOCK_SIZE),
         blocks_read := blocks_read ?xn + 1\<rparr>"
    by (rule pl)
  also have "\<dots> = x\<lparr>dump := (\<lambda>i. if i < Suc n * MIFARE_BLOCK_SIZE then dump e i else dump x i),
                      blocks_read := int (Suc n)\<rparr>"
    by (simp add: st)
  finally show ?case .
qed

lemma file_lines_written:
  "file_lines (writeFileFormat e)
     = [''Filetype: Mifare Classic File'' @ [CHR 0x0D],
        ''Version 1'' @ [CHR 0x0D],
        (''Device type: '' @ cardTypeToString (card_type e)) @ [CHR 0x0D],
        ''# UID, ATQA and SAK are common for all formats'' @ [CHR 0x0D],
        (''UID: '' @ uidToString e) @ [CHR 0x0D],
        (''SAK: '' @ hex2 (sak e)) @ [CHR 0x0D],
        (''ATQA: '' @ hex2 (atqa e 1) @ '' '' @ hex2 (atqa e 0)) @ [CHR 0x0D],
        ''# Memory dump'' @ [CHR 0x0D],
        (''Pages total: '' @ String_DEC (total_blocks e)) @ [CHR 0x0D]]
       @ (if blocks_read e < total_blocks e
          then [(''Pages read: '' @ String_DEC (blocks_read e)) @ [CHR 0x0D]] else [])
       @ map (\<lambda>b. ''Page '' @ String_DEC (int b) @ '': '' @ page_data e b @ [CHR 0x0D])
             [0..<nat (blocks_read e)]"
proof -
  let ?pages = "concat (map (page_line e) [0..<nat (blocks_read e)])"
  have h10: "CHR 0x0A \<notin> set (''Pages read: '' @ String_DEC (blocks_read e))"
    by (simp add: String_DEC_no_lf)
  have opt: "file_lines ((if blocks_read e < total_blocks e
                          then println (''Pages read: '' @ String_DEC (blocks_read e)) else [])
                         @ ?pages)
        = (if blocks_read e < total_blocks e
           then [(''Pages read: '' @ String_DEC (blocks_read e)) @ [CHR 0x0D]] else [])
          @ file_lines ?pages"
  proof (cases "blocks_read e < total_blocks e")
    case True
    then show ?thesis
      by (simp only: if_True file_lines_println [OF h10], simp)
  next
    case False
    then show ?thesis by (simp only: if_False append_Nil)
  qed
  have h1: "CHR 0x0A \<notin> set ''Filetype: Mifare Classic File''" by simp
  have h2: "CHR 0x0A \<notin> set ''Version 1''" by simp
  have h3: "CHR 0x0A \<notin> set (''Device type: '' @ cardTypeToString (card_type e))"
    by (simp add: cardTypeToString_no_lf)
  have h4: "CHR 0x0A \<notin> set ''# UID, ATQA and SAK are common for all formats''" by simp
  have h5: "CHR 0x0A \<notin> set (''UID: '' @ uidToString e)" by (simp add: uidToString_no_lf)
  have h6: "CHR 0x0A \<notin> set (''SAK: '' @ hex2 (sak e))" by (simp add: hex2_no_lf)
  have h7: "CHR 0x0A \<notin> set (''ATQA: '' @ hex2 (atqa e 1) @ '' '' @ hex2 (atqa e 0))"
    by (simp add: hex2_no_lf)
  have h8: "CHR 0x0A \<notin> set ''# Memory dump''" by simp
  have h9: "CHR 0x0A \<notin> set (''Pages total: '' @ String_DEC (total_blocks e))"
    by (simp add: String_DEC_no_lf)
  show ?thesis
    unfolding writeFileFormat_def
    by (simp only: file_lines_println [OF h1] file_lines_println [OF h2]
          file_lines_println [OF h3] file_lines_println [OF h4] file_lines_println [OF h5]
          file_lines_println [OF h6] file_lines_println [OF h7] file_lines_println [OF h8]
          file_lines_println [OF h9] opt file_lines_pages, simp)
qed

lemma fold_pages_read:
  "fold parse_line (if c then [(''Pages read: '' @ String_DEC n) @ [CHR 0x0D]] else []) x = x"
  by (cases c) (simp_all only: if_True if_False fold_simps comp_apply id_apply parse_line_pages_read)

text \<open>What the reader makes of a file that the writer produced, starting from any engine
  state \<open>e0\<close>.\<close>

abbreviation after_header :: "MifareTool \<Rightarrow> MifareTool \<Rightarrow> MifareTool" where
  "after_header e e0 \<equiv>
     (case card_type e of CARD_UNKNOWN \<Rightarrow> e0\<lparr>blocks_read := 0\<rparr>
                        | _ \<Rightarrow> e0\<lparr>blocks_read := 0, card_type := card_type e\<rparr>)
       \<lparr>uid_length := uid_length e mod 256,
        uid := store (uid e0) 0 (take MIFARE_UID_MAX_SIZE (load (uid e) 0 (uid_length e))),
        sak := sak e,
        atqa := store (atqa e0) 0 [atqa e 1, atqa e 0]\<rparr>"

lemma fold_written:
  "fold parse_line (file_lines (writeFileFormat e)) (e0\<lparr>blocks_read := 0\<rparr>)
     = (after_header e e0)
         \<lparr>dump := (\<lambda>i. if i < nat (blocks_read e) * MIFARE_BLOCK_SIZE then dump e i else dump e0 i),
          blocks_read := int (nat (blocks_read e))\<rparr>"
proof -
  let ?x0 = "e0\<lparr>blocks_read := 0\<rparr>"
  let ?x1 = "case card_type e of CARD_UNKNOWN \<Rightarrow> ?x0 | _ \<Rightarrow> ?x0\<lparr>card_type := card_type e\<rparr>"
  have f1: "uid ?x1 = uid e0" "atqa ?x1 = atqa e0" by (cases "card_type e"; simp)+
  let ?x2 = "?x1\<lparr>uid_length := uid_length e mod 256,
                  uid := store (uid ?x1) 0 (take MIFARE_UID_MAX_SIZE (load (uid e) 0 (uid_length e)))\<rparr>"
  let ?x3 = "?x2\<lparr>sak := sak e\<rparr>"
  let ?x4 = "?x3\<lparr>atqa := store (atqa ?x3) 0 [atqa e 1, atqa e 0]\<rparr>"
  have x4: "?x4 = after_header e e0"
    by (cases "card_type e") simp_all
  have b0: "blocks_read (after_header e e0) = 0" "dump (after_header e e0) = dump e0"
    by (cases "card_type e"; simp)+
  have "fold parse_line (file_lines (writeFileFormat e)) ?x0
          = fold parse_line
              (map (\<lambda>b. ''Page '' @ String_DEC (int b) @ '': '' @ page_data e b @ [CHR 0x0D])
                   [0..<nat (blocks_read e)]) ?x4"
    by (simp only: file_lines_written fold_append fold_simps comp_apply id_apply
          parse_line_filetype parse_line_version parse_line_device_type parse_line_comment1
          parse_line_uid parse_line_sak parse_line_atqa parse_line_comment2
          parse_line_pages_total fold_pages_read)
  also have "\<dots> = (after_header e e0)
         \<lparr>dump := (\<lambda>i. if i < nat (blocks_read e) * MIFARE_BLOCK_SIZE then dump e i
                          else dump (after_header e e0) i),
          blocks_read := int (nat (blocks_read e))\<rparr>"
    unfolding x4 by (rule fold_page_lines) (rule b0)
  finally show ?thesis by (simp only: b0)
qed

lemma mfc_round_trip:
  "parseFileFormat (writeFileFormat e) e0
     = (0 < blocks_read e,
        (after_header e e0)
         \<lparr>dump := (\<lambda>i. if i < nat (blocks_read e) * MIFARE_BLOCK_SIZE then dump e i else dump e0 i),
          blocks_read := int (nat (blocks_read e)),
          total_blocks := total_blocks_of (card_type (after_header e e0))\<rparr>)"
  by (simp add: parseFileFormat_def Let_def fold_written)


lemma mfc_round_trip_fields:
  "fst (parseFileFormat (writeFileFormat e) e0) = (0 < blocks_read e)"
  "sak (snd (parseFileFormat (writeFileFormat e) e0)) = sak e"
  "atqa (snd (parseFileFormat (writeFileFormat e) e0)) = store (atqa e0) 0 [atqa e 1, atqa e 0]"
  "uid_length (snd (parseFileFormat (writeFileFormat e) e0)) = uid_length e mod 256"
  "uid (snd (parseFileFormat (writeFileFormat e) e0))
     = store (uid e0) 0 (take MIFARE_UID_MAX_SIZE (load (uid e) 0 (uid_length e)))"
  "card_type (snd (parseFileFormat (writeFileFormat e) e0))
     = (case card_type e of CARD_UNKNOWN \<Rightarrow> card_type e0 | _ \<Rightarrow> card_type e)"
  "blocks_read (snd (parseFileFormat (writeFileFormat e) e0)) = int (nat (blocks_read e))"
  "dump (snd (parseFileFormat (writeFileFormat e) e0))
     = (\<lambda>i. if i < nat (blocks_read e) * MIFARE_BLOCK_SIZE then dump e i else dump e0 i)"
  "dump_valid (snd (parseFileFormat (writeFileFormat e) e0)) = dump_valid e0"
  by (cases "card_type e"; simp add: mfc_round_trip)+

lemma round_trip_payload:
  "load (dump (snd (parseFileFormat (writeFileFormat e) e0))) 0
        (nat (blocks_read e) * MIFARE_BLOCK_SIZE)
     = load (dump e) 0 (nat (blocks_read e) * MIFARE_BLOCK_SIZE)"
  by (simp add: mfc_round_trip_fields load_def)

lemma round_trip_uid:
  "uid_length e \<le> MIFARE_UID_MAX_SIZE \<Longrightarrow>
   load (uid (snd (parseFileFormat (writeFileFormat e) e0))) 0 (uid_length e)
     = load (uid e) 0 (uid_length e)"
  by (simp add: mfc_round_trip_fields load_def store_def)

text \<open>
  C3, on the file of a 1K card.  The engine holds ATQA \<open>04 00\<close>; the file written from
  it, read back into a fresh engine, gives ATQA \<open>00 04\<close>.  \<open>writeFileFormat\<close>
  prints \<open>_atqa[1]\<close> before \<open>_atqa[0]\<close>, and \<open>parseFileFormat\<close> stores the two
  bytes in the order of the file.  SAK, UID and the 1024 bytes of memory come back
  unchanged.
\<close>

theorem mfc_round_trip_swaps_atqa:
  "atqa read_1k_engine 0 = 0x04 \<and> atqa read_1k_engine 1 = 0x00
   \<and> fst (parseFileFormat (writeFileFormat read_1k_engine) MifareTool_new)
   \<and> atqa (snd (parseFileFormat (writeFileFormat read_1k_engine) MifareTool_new)) 0 = 0x00
   \<and> atqa (snd (parseFileFormat (writeFileFormat read_1k_engine) MifareTool_new)) 1 = 0x04
   \<and> sak (snd (parseFileFormat (writeFileFormat read_1k_engine) MifareTool_new)) = sak read_1k_engine
   \<and> uid_length (snd (parseFileFormat (writeFileFormat read_1k_engine) MifareTool_new)) = 4
   \<and> load (uid (snd (parseFileFormat (writeFileFormat read_1k_engine) MifareTool_new))) 0 4
       = load (uid read_1k_engine) 0 4
   \<and> load (dump (snd (parseFileFormat (writeFileFormat read_1k_engine) MifareTool_new))) 0
            (64 * MIFARE_BLOCK_SIZE)
       = load (dump read_1k_engine) 0 (64 * MIFARE_BLOCK_SIZE)"
proof -
  have n: "nat (blocks_read read_1k_engine) = 64" "uid_length read_1k_engine = 4"
    by (simp_all add: read_1k_engine_def)
  have u: "uid_length read_1k_engine \<le> MIFARE_UID_MAX_SIZE"
    by (simp add: read_1k_engine_def MIFARE_UID_MAX_SIZE_def)
  have a: "atqa read_1k_engine 0 = 0x04" "atqa read_1k_engine 1 = 0x00"
    "0 < blocks_read read_1k_engine"
    by (simp_all add: read_1k_engine_def store_def)
  note p = round_trip_payload [of read_1k_engine MifareTool_new, unfolded n]
  note q = round_trip_uid [OF u, of MifareTool_new, unfolded n]
  from p q a n show ?thesis
    by (simp add: mfc_round_trip_fields(1-4) store_def)
qed

section \<open>The record the Coordinator keeps after a Mifare read or load\<close>

lemma read_tag_headless_card_type:
  assumes "read_tag_headless t keys timeout_ms e w = (Some doc, e2, w2)"
  shows "json_card_type doc = cardTypeToString (card_type e2)"
proof -
  obtain b e1 w1 where wt: "wait_for_card t (millis w) timeout_ms e w = (b, e1, w1)"
    by (cases "wait_for_card t (millis w) timeout_ms e w")
  obtain rr e3 w3 where ra: "readAllBlocks t keys (e1\<lparr>blocks_read := 0\<rparr>) w1 = (rr, e3, w3)"
    by (cases "readAllBlocks t keys (e1\<lparr>blocks_read := 0\<rparr>) w1")
  from assms wt ra show ?thesis
    by (cases b) (auto simp: read_tag_headless_def)
qed

lemma readMifare_success:
  assumes run: "readMifare t keys parse_ok info timeout_sec m w = (r, info', m', w')"
    and ok: "success r"
  shows "current_tag m' = info' \<and> ti_mifare_sectors info' = 16
         \<and> length (ti_mifare_dump info') = 1024
         \<and> (\<exists>e. mifare_handler m' = Some e
                  \<and> ti_mifare_dump info' = load (dump e) 0 MIFARE_1K_DUMP_SIZE
                  \<and> protocol_name info' = cardTypeToString (card_type e))"
proof -
  from run ok have init: "initialized m" by (cases "initialized m") (auto simp: readMifare_def)
  obtain b m1 w1 where bm: "beginMifare t m w = (b, m1, w1)" by (cases "beginMifare t m w")
  from run ok init bm have b: "b" by (cases b) (auto simp: readMifare_def)
  obtain j e2 w2 where rt:
    "read_tag_headless t keys (nat ((timeout_sec * 1000) mod 2 ^ 32)) (the (mifare_handler m1)) w1
       = (j, e2, w2)"
    by (cases "read_tag_headless t keys (nat ((timeout_sec * 1000) mod 2 ^ 32))
                 (the (mifare_handler m1)) w1")
  from run ok init bm b rt obtain doc where j: "j = Some doc"
    by (cases j) (auto simp: readMifare_def)
  from run ok init bm b rt j have p: "parse_ok" by (cases parse_ok) (auto simp: readMifare_def)
  from rt j have ct: "json_card_type doc = cardTypeToString (card_type e2)"
    by (simp add: read_tag_headless_card_type)
  from run init bm b rt j p ct show ?thesis
    by (cases "stringToUid (remove_char CHR '' '' (json_uid doc)) (ti_uid info)")
       (auto simp: readMifare_def Let_def length_load MIFARE_1K_DUMP_SIZE_def)
qed

lemma loadMifare_success:
  assumes run: "loadMifare t fs info filename m w = (r, info', m', w')"
    and ok: "success r"
  shows "current_tag m' = info' \<and> length (ti_mifare_dump info') = 1024
         \<and> (\<exists>e. mifare_handler m' = Some e
                  \<and> ti_mifare_dump info' = load (dump e) 0 MIFARE_1K_DUMP_SIZE
                  \<and> ti_mifare_sectors info' = (if card_type e = CARD_MIFARE_1K then 16 else 40)
                  \<and> protocol_name info'
                      = (if card_type e = CARD_MIFARE_1K then ''Mifare Classic 1K''
                         else ''Mifare Classic 4K''))"
proof -
  let ?run = "loadMifare t fs info filename m w"
  from run have R: "r = fst ?run" "info' = fst (snd ?run)" "m' = fst (snd (snd ?run))"
    by simp_all
  from ok have ok': "success (fst ?run)" by (simp only: R)
  have init: "initialized m"
  proof (rule ccontr)
    assume "\<not> initialized m"
    with ok' show False by (simp add: loadMifare_def)
  qed
  show ?thesis
  proof (cases "mifare_handler m")
    case None
    obtain bok wb where mb: "MifareTool_begin t w = (bok, wb)" by (cases "MifareTool_begin t w")
    have bok: "bok"
    proof (rule ccontr)
      assume "\<not> bok"
      with ok' init None mb show False by (simp add: loadMifare_def)
    qed
    obtain lr e2 where lf: "load_file_headless filename MifareTool_new fs = (lr, e2)"
      by (cases "load_file_headless filename MifareTool_new fs")
    have lr: "lr = SUCCESS"
    proof (rule ccontr)
      assume "lr \<noteq> SUCCESS"
      with ok' init None mb bok lf show False by (simp add: loadMifare_def)
    qed
    from init None mb bok lf lr show ?thesis
      unfolding R
      by (simp add: loadMifare_def Let_def length_load MIFARE_1K_DUMP_SIZE_def)
  next
    case (Some h)
    obtain lr e2 where lf: "load_file_headless filename h fs = (lr, e2)"
      by (cases "load_file_headless filename h fs")
    have lr: "lr = SUCCESS"
    proof (rule ccontr)
      assume "lr \<noteq> SUCCESS"
      with ok' init Some lf show False by (simp add: loadMifare_def)
    qed
    from init Some lf lr show ?thesis
      unfolding R
      by (simp add: loadMifare_def Let_def length_load MIFARE_1K_DUMP_SIZE_def)
  qed
qed

lemma fold_keeps:
  "(\<And>s x. f (g s x) = f x) \<Longrightarrow> f (fold g xs x) = f x"
  by (induction xs arbitrary: x) simp_all

lemma extractKeysFromDump_keeps:
  "card_type (extractKeysFromDump e) = card_type e"
  "dump (extractKeysFromDump e) = dump e"
  "blocks_read (extractKeysFromDump e) = blocks_read e"
  "uid (extractKeysFromDump e) = uid e"
  "uid_length (extractKeysFromDump e) = uid_length e"
proof -
  have "card_type (fold extract_sector_keys xs e) = card_type e" for xs
    by (rule fold_keeps) (simp add: extract_sector_keys_def Let_def)
  then show "card_type (extractKeysFromDump e) = card_type e"
    by (simp add: extractKeysFromDump_def)
  have "dump (fold extract_sector_keys xs e) = dump e" for xs
    by (rule fold_keeps) (simp add: extract_sector_keys_def Let_def)
  then show "dump (extractKeysFromDump e) = dump e"
    by (simp add: extractKeysFromDump_def)
  have "blocks_read (fold extract_sector_keys xs e) = blocks_read e" for xs
    by (rule fold_keeps) (simp add: extract_sector_keys_def Let_def)
  then show "blocks_read (extractKeysFromDump e) = blocks_read e"
    by (simp add: extractKeysFromDump_def)
  have "uid (fold extract_sector_keys xs e) = uid e" for xs
    by (rule fold_keeps) (simp add: extract_sector_keys_def Let_def)
  then show "uid (extractKeysFromDump e) = uid e"
    by (simp add: extractKeysFromDump_def)
  have "uid_length (fold extract_sector_keys xs e) = uid_length e" for xs
    by (rule fold_keeps) (simp add: extract_sector_keys_def Let_def)
  then show "uid_length (extractKeysFromDump e) = uid_length e"
    by (simp add: extractKeysFromDump_def)
qed

lemma load_written_file:
  assumes "files fs (buildFilePath filename) = Some (writeFileFormat e)"
    and "\<not> open_fails fs (buildFilePath filename)" and "0 < blocks_read e"
  shows "load_file_headless filename e0 fs
           = (SUCCESS, extractKeysFromDump
                         ((snd (parseFileFormat (writeFileFormat e) e0))\<lparr>dump_valid := True\<rparr>))"
proof -
  obtain ok E where pe: "parseFileFormat (writeFileFormat e) e0 = (ok, E)"
    by (cases "parseFileFormat (writeFileFormat e) e0")
  with mfc_round_trip_fields(1) [of e e0] assms(3) have ok: "ok" by simp
  from assms pe ok show ?thesis
    by (simp add: load_file_headless_def Let_def fs_exists_def)
qed

lemma load_card4k:
  defines "L \<equiv> loadMifare silent_transport fs_card4k (mifare_tag [] 0) ''card4k''
                  (manager_with MifareTool_new (mifare_tag [] 0)) world0"
  shows "success (fst L)" "current_tag (fst (snd (snd L))) = fst (snd L)"
    "protocol_name (fst (snd L)) = ''Mifare Classic 4K''"
    "ti_mifare_sectors (fst (snd L)) = 40"
    "length (ti_mifare_dump (fst (snd L))) = 1024"
    "card_type (the (mifare_handler (fst (snd (snd L))))) = CARD_MIFARE_4K"
    "blocks_read (the (mifare_handler (fst (snd (snd L))))) = 256"
proof -
  have p: "buildFilePath ''card4k'' = ''/DUMPS/MIFARE/card4k.mfc''"
    by (simp add: buildFilePath_def startsWith_def endsWith_def NFC_MIFARE_DUMP_FOLDER_def)
  have lf: "load_file_headless ''card4k'' MifareTool_new fs_card4k
           = (SUCCESS, extractKeysFromDump
                         ((snd (parseFileFormat (writeFileFormat loaded_4k) MifareTool_new))
                            \<lparr>dump_valid := True\<rparr>))"
    by (rule load_written_file) (simp_all add: p fs_card4k_def loaded_4k_def)
  have ct: "card_type loaded_4k = CARD_MIFARE_4K" "blocks_read loaded_4k = 256"
    by (simp_all add: loaded_4k_def)
  have L: "L = (\<lparr>success = True, message = ''File loaded successfully'', code = 0\<rparr>,
                fst (snd L), fst (snd (snd L)), snd (snd (snd L)))"
    unfolding L_def
    by (simp add: loadMifare_def manager_with_def lf Let_def extractKeysFromDump_keeps
          mfc_round_trip_fields ct)
  show "success (fst L)" by (subst L) simp
  show "current_tag (fst (snd (snd L))) = fst (snd L)"
    "protocol_name (fst (snd L)) = ''Mifare Classic 4K''"
    "ti_mifare_sectors (fst (snd L)) = 40"
    "length (ti_mifare_dump (fst (snd L))) = 1024"
    "card_type (the (mifare_handler (fst (snd (snd L))))) = CARD_MIFARE_4K"
    "blocks_read (the (mifare_handler (fst (snd (snd L))))) = 256"
    unfolding L_def
    by (simp_all add: loadMifare_def manager_with_def lf Let_def extractKeysFromDump_keeps
          mfc_round_trip_fields ct length_load MIFARE_1K_DUMP_SIZE_def)
qed

lemma read_cascade_card_type:
  assumes "read_cascade t keys sector fb cka ckb e w = (a, used, kb, cka1, ckb1, e1, w1)"
  shows "card_type e1 = card_type e"
proof -
  obtain a1 u1 k1 ea wa where s1:
    "(if cka \<noteq> [] then
        (let kb = keyToBytes cka (replicate 6 0) in
         case authenticateBlock t fb True kb e w of
           (r, w') \<Rightarrow>
             if r = SUCCESS then (True, True, kb, set_key_a sector kb e, w')
             else (False, False, kb, e, snd (reactivateCard t w')))
      else (False, False, replicate 6 0, e, w)) = (a1, u1, k1, ea, wa)"
    by (meson prod_cases5)
  then have p1: "card_type ea = card_type e"
    by (auto simp: Let_def set_key_a_def split: if_splits prod.splits)
  obtain a2 u2 k2 eb wb where s2:
    "(if \<not> a1 \<and> ckb \<noteq> [] then
        (let kb = keyToBytes ckb k1 in
         case authenticateBlock t fb False kb ea wa of
           (r, w') \<Rightarrow>
             if r = SUCCESS then (True, False, kb, set_key_b sector kb ea, w')
             else (False, u1, kb, ea, snd (reactivateCard t w')))
      else (a1, u1, k1, ea, wa)) = (a2, u2, k2, eb, wb)"
    by (meson prod_cases5)
  with p1 have p2: "card_type eb = card_type e"
    by (auto simp: Let_def set_key_b_def split: if_splits prod.splits)
  from assms s1 s2 p2 show ?thesis
    unfolding read_cascade_def
    by (auto simp: set_key_a_def set_key_b_def split: if_splits prod.splits option.splits)
qed

lemma readSector_blocks_card_type:
  "readSector_blocks t fb offs e w = (r, e1, w1) \<Longrightarrow> card_type e1 = card_type e"
proof (induction offs arbitrary: e w)
  case Nil
  then show ?case by simp
next
  case (Cons o1 offs)
  show ?case
  proof (cases "pn532 t (ReadDataBlock (fb + o1)) w")
    case (Pair r1 wa)
    show ?thesis
    proof (cases r1)
      case None
      with Pair Cons.prems show ?thesis by (simp add: Let_def)
    next
      case (Some buffer)
      with Pair Cons.prems have "readSector_blocks t fb offs
            (e\<lparr>dump := store (dump e) (nat (fb + o1) * MIFARE_BLOCK_SIZE) (block_buffer buffer),
               blocks_read := blocks_read e + 1\<rparr>) wa = (r, e1, w1)"
        by (simp add: Let_def)
      from Cons.IH [OF this] show ?thesis by simp
    qed
  qed
qed

lemma reconstruct_trailer_card_type: "card_type (reconstruct_trailer sector e) = card_type e"
  by (simp add: reconstruct_trailer_def Let_def)

lemma readSectorWithCache_card_type:
  assumes "readSectorWithCache t keys sector cka ckb e w = (r, cka1, ckb1, e1, w1)"
  shows "card_type e1 = card_type e"
proof -
  obtain a u kb ca cb ea wa where c:
    "read_cascade t keys sector (getFirstBlockOfSector sector) cka ckb e w
       = (a, u, kb, ca, cb, ea, wa)"
    by (meson prod_cases7)
  then have ct: "card_type ea = card_type e" by (rule read_cascade_card_type)
  show ?thesis
  proof (cases a)
    case False
    with assms c ct show ?thesis by (simp add: readSectorWithCache_def Let_def)
  next
    case True
    obtain r2 e2 w2 where b:
      "readSector_blocks t (getFirstBlockOfSector sector)
         (map int [0..<nat (getBlockCountInSector sector)]) ea wa = (r2, e2, w2)"
      by (meson prod_cases3)
    then have "card_type e2 = card_type ea" by (rule readSector_blocks_card_type)
    with assms c ct True b show ?thesis
      by (cases "r2 = SUCCESS")
         (auto simp: readSectorWithCache_def Let_def reconstruct_trailer_card_type)
  qed
qed

lemma read_sectors_card_type:
  "read_sectors t keys sectors cka ckb e w = (e1, w1) \<Longrightarrow> card_type e1 = card_type e"
proof (induction sectors arbitrary: cka ckb e w)
  case Nil
  then show ?case by simp
next
  case (Cons s sectors)
  obtain r ca cb ea wa where c: "readSectorWithCache t keys s cka ckb e w = (r, ca, cb, ea, wa)"
    by (meson prod_cases5)
  then have ct: "card_type ea = card_type e" by (rule readSectorWithCache_card_type)
  from Cons.prems c have "read_sectors t keys sectors ca cb
      (ea\<lparr>sector_auth_success := (sector_auth_success ea)(s := (r = SUCCESS))\<rparr>) wa = (e1, w1)"
    by simp
  from Cons.IH [OF this] ct show ?case by simp
qed

lemma readAllBlocks_card_type:
  assumes "readAllBlocks t keys e w = (r, e1, w1)"
  shows "card_type e1 = card_type e"
proof -
  obtain ea wa where c:
    "read_sectors t keys (map int [0..<nat (getSectorCount (card_type e))]) [] []
       (e\<lparr>blocks_read := 0\<rparr>) w = (ea, wa)"
    by (meson prod.exhaust)
  from read_sectors_card_type [OF c] assms c show ?thesis
    by (simp add: readAllBlocks_def)
qed

lemma read_factory_card:
  defines "R \<equiv> readMifare factory_card_transport [] True (mifare_tag [] 0) 1
                  (manager_with MifareTool_new (mifare_tag [] 0)) world0"
  shows "success (fst R)"
    "card_type (the (mifare_handler (fst (snd (snd R))))) = CARD_MIFARE_4K"
proof -
  obtain b e1 w1 where wt:
    "wait_for_card factory_card_transport (millis world0) 1000 MifareTool_new world0 = (b, e1, w1)"
    by (cases "wait_for_card factory_card_transport (millis world0) 1000 MifareTool_new world0")
  then have b: "b" and c1: "card_type e1 = CARD_MIFARE_4K"
    by (auto simp: wait_for_card.simps eval_defs factory_card_transport_def split: if_splits)
  obtain rr e2 w2 where ra:
    "readAllBlocks factory_card_transport [] (e1\<lparr>blocks_read := 0\<rparr>) w1 = (rr, e2, w2)"
    by (cases "readAllBlocks factory_card_transport [] (e1\<lparr>blocks_read := 0\<rparr>) w1")
  from readAllBlocks_card_type [OF ra] c1 have c2: "card_type e2 = CARD_MIFARE_4K" by simp
  from wt b ra show "success (fst R)"
    unfolding R_def
    by (simp add: readMifare_def manager_with_def beginMifare_def read_tag_headless_def
          stringToUid_def Let_def)
  from wt b ra c2 show "card_type (the (mifare_handler (fst (snd (snd R))))) = CARD_MIFARE_4K"
    unfolding R_def
    by (simp add: readMifare_def manager_with_def beginMifare_def read_tag_headless_def
          stringToUid_def Let_def)
qed

text \<open>
  C5 (as the code has it).  After a successful \<open>readMifare\<close> or \<open>loadMifare\<close> the
  current record is the one returned, and its payload is the first 1024 bytes of the
  engine's dump, whatever the card type.  After a read the sector count is 16 for both
  card types and the card subtype is the name of the engine's card type; after a load
  the sector count is 16 and the subtype ``Mifare Classic 1K'' for a 1K file, and 40 and
  ``Mifare Classic 4K'' otherwise.
\<close>

theorem coordinator_record_holds_first_1024_bytes:
  "(readMifare t keys parse_ok info timeout_sec m w = (r, info', m', w') \<and> success r \<longrightarrow>
      current_tag m' = info' \<and> ti_mifare_sectors info' = 16
      \<and> length (ti_mifare_dump info') = 1024
      \<and> (\<exists>e. mifare_handler m' = Some e
               \<and> ti_mifare_dump info' = load (dump e) 0 MIFARE_1K_DUMP_SIZE
               \<and> protocol_name info' = cardTypeToString (card_type e)))
   \<and> (loadMifare t fs info filename m w = (rl, infol, ml, wl) \<and> success rl \<longrightarrow>
      current_tag ml = infol \<and> length (ti_mifare_dump infol) = 1024
      \<and> (\<exists>e. mifare_handler ml = Some e
               \<and> ti_mifare_dump infol = load (dump e) 0 MIFARE_1K_DUMP_SIZE
               \<and> ti_mifare_sectors infol = (if card_type e = CARD_MIFARE_1K then 16 else 40)
               \<and> protocol_name infol
                   = (if card_type e = CARD_MIFARE_1K then ''Mifare Classic 1K''
                      else ''Mifare Classic 4K'')))"
proof (rule conjI; rule impI)
  assume "readMifare t keys parse_ok info timeout_sec m w = (r, info', m', w') \<and> success r"
  then have a: "readMifare t keys parse_ok info timeout_sec m w = (r, info', m', w')"
    and b: "success r" by simp_all
  from readMifare_success [OF a b]
  show "current_tag m' = info' \<and> ti_mifare_sectors info' = 16
      \<and> length (ti_mifare_dump info') = 1024
      \<and> (\<exists>e. mifare_handler m' = Some e
               \<and> ti_mifare_dump info' = load (dump e) 0 MIFARE_1K_DUMP_SIZE
               \<and> protocol_name info' = cardTypeToString (card_type e))" .
next
  assume "loadMifare t fs info filename m w = (rl, infol, ml, wl) \<and> success rl"
  then have a: "loadMifare t fs info filename m w = (rl, infol, ml, wl)"
    and b: "success rl" by simp_all
  from loadMifare_success [OF a b]
  show "current_tag ml = infol \<and> length (ti_mifare_dump infol) = 1024
      \<and> (\<exists>e. mifare_handler ml = Some e
               \<and> ti_mifare_dump infol = load (dump e) 0 MIFARE_1K_DUMP_SIZE
               \<and> ti_mifare_sectors infol = (if card_type e = CARD_MIFARE_1K then 16 else 40)
               \<and> protocol_name infol
                   = (if card_type e = CARD_MIFARE_1K then ''Mifare Classic 1K''
                      else ''Mifare Classic 4K''))" .
qed

text \<open>A read of a card in factory state, which the engine identifies as 4K, and a load of
  the file of a complete 4K dump.\<close>

theorem coordinator_record_holds_first_1024_bytes_witness:
  "success (fst (readMifare factory_card_transport [] True (mifare_tag [] 0) 1
                   (manager_with MifareTool_new (mifare_tag [] 0)) world0))
   \<and> protocol_name (fst (snd (readMifare factory_card_transport [] True (mifare_tag [] 0) 1
                   (manager_with MifareTool_new (mifare_tag [] 0)) world0))) = ''Mifare Classic 4K''
   \<and> ti_mifare_sectors (fst (snd (readMifare factory_card_transport [] True (mifare_tag [] 0) 1
                   (manager_with MifareTool_new (mifare_tag [] 0)) world0))) = 16
   \<and> length (ti_mifare_dump (fst (snd (readMifare factory_card_transport [] True (mifare_tag [] 0) 1
                   (manager_with MifareTool_new (mifare_tag [] 0)) world0)))) = 1024
   \<and> success (fst (loadMifare silent_transport fs_card4k (mifare_tag [] 0) ''card4k''
                   (manager_with MifareTool_new (mifare_tag [] 0)) world0))
   \<and> ti_mifare_sectors (fst (snd (loadMifare silent_transport fs_card4k (mifare_tag [] 0) ''card4k''
                   (manager_with MifareTool_new (mifare_tag [] 0)) world0))) = 40
   \<and> length (ti_mifare_dump (fst (snd (loadMifare silent_transport fs_card4k (mifare_tag [] 0)
                   ''card4k'' (manager_with MifareTool_new (mifare_tag [] 0)) world0)))) = 1024"
proof -
  define R where "R = readMifare factory_card_transport [] True (mifare_tag [] 0) 1
                   (manager_with MifareTool_new (mifare_tag [] 0)) world0"
  define L where "L = loadMifare silent_transport fs_card4k (mifare_tag [] 0) ''card4k''
                   (manager_with MifareTool_new (mifare_tag [] 0)) world0"
  have r: "readMifare factory_card_transport [] True (mifare_tag [] 0) 1
             (manager_with MifareTool_new (mifare_tag [] 0)) world0
           = (fst R, fst (snd R), fst (snd (snd R)), snd (snd (snd R)))"
    by (simp add: R_def)
  have l: "loadMifare silent_transport fs_card4k (mifare_tag [] 0) ''card4k''
             (manager_with MifareTool_new (mifare_tag [] 0)) world0
           = (fst L, fst (snd L), fst (snd (snd L)), snd (snd (snd L)))"
    by (simp add: L_def)
  have sr: "success (fst R)" unfolding R_def by (rule read_factory_card)
  have cr: "card_type (the (mifare_handler (fst (snd (snd R))))) = CARD_MIFARE_4K"
    unfolding R_def by (rule read_factory_card)
  have sl: "success (fst L)" unfolding L_def by (rule load_card4k)
  have ct: "card_type (the (mifare_handler (fst (snd (snd L))))) = CARD_MIFARE_4K"
    unfolding L_def by (rule load_card4k)
  note rd = coordinator_record_holds_first_1024_bytes
    [where t = factory_card_transport and keys = "[]" and parse_ok = True
       and info = "mifare_tag [] 0" and timeout_sec = 1
       and m = "manager_with MifareTool_new (mifare_tag [] 0)" and w = world0
       and r = "fst R" and info' = "fst (snd R)" and m' = "fst (snd (snd R))"
       and w' = "snd (snd (snd R))", THEN conjunct1]
  note ld = coordinator_record_holds_first_1024_bytes
    [where t = silent_transport and fs = fs_card4k and info = "mifare_tag [] 0"
       and filename = "''card4k''"
       and m = "manager_with MifareTool_new (mifare_tag [] 0)" and w = world0
       and rl = "fst L" and infol = "fst (snd L)" and ml = "fst (snd (snd L))"
       and wl = "snd (snd (snd L))", THEN conjunct2]
  from rd r sr have a: "ti_mifare_sectors (fst (snd R)) = 16"
    "length (ti_mifare_dump (fst (snd R))) = 1024" by simp_all
  from rd r sr cr have n: "protocol_name (fst (snd R)) = ''Mifare Classic 4K''"
    by (auto simp: cardTypeToString_def)
  from ld l sl ct have b: "ti_mifare_sectors (fst (snd L)) = 40"
    "length (ti_mifare_dump (fst (snd L))) = 1024" by auto
  from a n b sr sl show ?thesis by (simp add: R_def L_def)
qed

text \<open>
  C5 (as the specification has it) fails for a 4K card.  After the load of the file of a
  complete 4K dump the engine holds card type 4K and 256 blocks, the record says
  ``Mifare Classic 4K'', and its payload is not 4096 bytes long.  After the read of a 4K
  card the record says ``Mifare Classic 4K'', its sector count is not 40 and its payload
  is not 4096 bytes long.
\<close>

theorem mifare_4k_record_holds_1024_bytes:
  "success (fst (loadMifare silent_transport fs_card4k (mifare_tag [] 0) ''card4k''
                   (manager_with MifareTool_new (mifare_tag [] 0)) world0))
   \<and> protocol_name (current_tag (fst (snd (snd
         (loadMifare silent_transport fs_card4k (mifare_tag [] 0) ''card4k''
                   (manager_with MifareTool_new (mifare_tag [] 0)) world0)))))
       = ''Mifare Classic 4K''
   \<and> card_type (the (mifare_handler (fst (snd (snd
         (loadMifare silent_transport fs_card4k (mifare_tag [] 0) ''card4k''
                   (manager_with MifareTool_new (mifare_tag [] 0)) world0))))))
       = CARD_MIFARE_4K
   \<and> blocks_read (the (mifare_handler (fst (snd (snd
         (loadMifare silent_transport fs_card4k (mifare_tag [] 0) ''card4k''
                   (manager_with MifareTool_new (mifare_tag [] 0)) world0))))))
       = 256
   \<and> length (ti_mifare_dump (current_tag (fst (snd (snd
         (loadMifare silent_transport fs_card4k (mifare_tag [] 0) ''card4k''
                   (manager_with MifareTool_new (mifare_tag [] 0)) world0))))))
       \<noteq> 4096
   \<and> success (fst (readMifare factory_card_transport [] True (mifare_tag [] 0) 1
                   (manager_with MifareTool_new (mifare_tag [] 0)) world0))
   \<and> protocol_name (current_tag (fst (snd (snd
         (readMifare factory_card_transport [] True (mifare_tag [] 0) 1
                   (manager_with MifareTool_new (mifare_tag [] 0)) world0)))))
       = ''Mifare Classic 4K''
   \<and> ti_mifare_sectors (current_tag (fst (snd (snd
         (readMifare factory_card_transport [] True (mifare_tag [] 0) 1
                   (manager_with MifareTool_new (mifare_tag [] 0)) world0)))))
       \<noteq> 40
   \<and> length (ti_mifare_dump (current_tag (fst (snd (snd
         (readMifare factory_card_transport [] True (mifare_tag [] 0) 1
                   (manager_with MifareTool_new (mifare_tag [] 0)) world0))))))
       \<noteq> 4096"
proof -
  define R where "R = readMifare factory_card_transport [] True (mifare_tag [] 0) 1
                   (manager_with MifareTool_new (mifare_tag [] 0)) world0"
  have r: "readMifare factory_card_transport [] True (mifare_tag [] 0) 1
             (manager_with MifareTool_new (mifare_tag [] 0)) world0
           = (fst R, fst (snd R), fst (snd (snd R)), snd (snd (snd R)))"
    by (simp add: R_def)
  have sr: "success (fst R)" unfolding R_def by (rule read_factory_card)
  have cr: "card_type (the (mifare_handler (fst (snd (snd R))))) = CARD_MIFARE_4K"
    unfolding R_def by (rule read_factory_card)
  from readMifare_success [OF r sr] cr
  have "protocol_name (current_tag (fst (snd (snd R)))) = ''Mifare Classic 4K''
        \<and> ti_mifare_sectors (current_tag (fst (snd (snd R)))) \<noteq> 40
        \<and> length (ti_mifare_dump (current_tag (fst (snd (snd R))))) \<noteq> 4096"
    by (auto simp: cardTypeToString_def)
  with sr show ?thesis by (simp add: load_card4k R_def)
qed

section \<open>Completeness of a loaded SRIX dump file\<close>

text \<open>The loop of \<open>load_file_headless\<close> adds at most one to \<open>blocks_loaded\<close> for each
  line, so a file of fewer than 128 lines is rejected as incomplete.\<close>

lemma srix_parse_line_count:
  "srix_parse_line raw (h, k, s) = (h1, k1, s1) \<Longrightarrow> k1 \<le> k + 1"
  by (auto simp: srix_parse_line_def Let_def split: if_splits)

lemma srix_fold_count:
  "fold srix_parse_line ls (h, k, s) = (h1, k1, s1) \<Longrightarrow> k1 \<le> k + int (length ls)"
proof (induction ls arbitrary: h k s)
  case Nil
  then show ?case by simp
next
  case (Cons l ls)
  obtain ha ka sa where st: "srix_parse_line l (h, k, s) = (ha, ka, sa)"
    by (cases "srix_parse_line l (h, k, s)")
  then have "ka \<le> k + 1" by (rule srix_parse_line_count)
  moreover from Cons.prems st have "fold srix_parse_line ls (ha, ka, sa) = (h1, k1, s1)" by simp
  then have "k1 \<le> ka + int (length ls)" by (rule Cons.IH)
  ultimately show ?case by simp
qed

lemma srix_load_short_file_rejected:
  assumes "nfc_ok s"
    and "files fs (NFC_SRIX_DUMP_FOLDER @ filename
                   @ (if \<not> endsWith filename ''.srix'' then ''.srix'' else [])) = Some content"
    and "\<not> open_fails fs (NFC_SRIX_DUMP_FOLDER @ filename
                   @ (if \<not> endsWith filename ''.srix'' then ''.srix'' else []))"
    and "length (file_lines content) < SRIX_BLOCK_COUNT"
  shows "fst (srix_load_file_headless filename s fs) = SRIX_ERROR_INCOMPLETE_DUMP"
proof -
  obtain h1 k1 s1 where f:
    "fold srix_parse_line (file_lines content)
       (False, 0, s\<lparr>srix_dump := (\<lambda>_. 0), srix_uid := (\<lambda>_. 0)\<rparr>) = (h1, k1, s1)"
    by (meson prod_cases3)
  from srix_fold_count [OF f] assms(4) have "k1 < int SRIX_BLOCK_COUNT" by simp
  with assms f show ?thesis
    by (simp add: srix_load_file_headless_def Let_def fs_exists_def)
qed

lemma file_lines_replicate:
  "CHR 0x0A \<notin> set l \<Longrightarrow>
   file_lines (concat (replicate n (println l))) = replicate n (l @ [CHR 0x0D])"
proof (induction n)
  case 0
  show ?case by (simp add: file_lines_def)
next
  case (Suc n)
  from file_lines_println [OF Suc.prems, of "concat (replicate n (println l))"] Suc
  show ?case by simp
qed

lemma srix_parse_block0:
  "srix_parse_line (''[00] DEADBEEF'' @ [CHR 0x0D]) (True, k, s)
     = (True, k + 1, s\<lparr>srix_dump := store (srix_dump s) 0 [0xDE, 0xAD, 0xBE, 0xEF]\<rparr>)"
  by (simp add: srix_parse_line_def trim_def isspace_def startsWith_def indexOf_def
        substring_def substring_from_def remove_char_def byte_of_hex_def strtoul16_def
        hexval_def Let_def SRIX_BLOCK_COUNT_def SRIX_BLOCK_SIZE_def HEX_CHARS_PER_BYTE_def
        upt_rec)

lemma store_twice: "store (store a off bs) off bs = store a off bs"
  by (rule ext) (simp add: store_def)

lemma fold_block0:
  "fold srix_parse_line (replicate (Suc n) (''[00] DEADBEEF'' @ [CHR 0x0D])) (True, k, s)
     = (True, k + 1 + int n, s\<lparr>srix_dump := store (srix_dump s) 0 [0xDE, 0xAD, 0xBE, 0xEF]\<rparr>)"
proof (induction n arbitrary: k s)
  case 0
  show ?case using srix_parse_block0 [of k s] by simp
next
  case (Suc n)
  have "fold srix_parse_line (replicate (Suc (Suc n)) (''[00] DEADBEEF'' @ [CHR 0x0D])) (True, k, s)
        = fold srix_parse_line (replicate (Suc n) (''[00] DEADBEEF'' @ [CHR 0x0D]))
            (srix_parse_line (''[00] DEADBEEF'' @ [CHR 0x0D]) (True, k, s))"
    by (simp only: replicate_Suc fold_simps comp_apply)
  also have "\<dots> = fold srix_parse_line (replicate (Suc n) (''[00] DEADBEEF'' @ [CHR 0x0D]))
            (True, k + 1, s\<lparr>srix_dump := store (srix_dump s) 0 [0xDE, 0xAD, 0xBE, 0xEF]\<rparr>)"
    by (simp only: srix_parse_block0)
  also have "\<dots> = (True, k + 1 + 1 + int n,
       (s\<lparr>srix_dump := store (srix_dump s) 0 [0xDE, 0xAD, 0xBE, 0xEF]\<rparr>)
         \<lparr>srix_dump := store (srix_dump
              (s\<lparr>srix_dump := store (srix_dump s) 0 [0xDE, 0xAD, 0xBE, 0xEF]\<rparr>)) 0
              [0xDE, 0xAD, 0xBE, 0xEF]\<rparr>)"
    by (rule Suc.IH)
  finally show ?case by (simp add: store_twice)
qed

lemma srix_header_lines:
  "srix_parse_line (''Filetype: SRIX Dump'' @ [CHR 0x0D]) (False, k, s) = (False, k, s)"
  "srix_parse_line (''UID: D002123456789ABC'' @ [CHR 0x0D]) (False, k, s)
     = (False, k, s\<lparr>srix_uid := store (srix_uid s) 0
                        [0xD0, 0x02, 0x12, 0x34, 0x56, 0x78, 0x9A, 0xBC]\<rparr>)"
  "srix_parse_line (''# Data:'' @ [CHR 0x0D]) (False, k, s) = (True, k, s)"
  by (simp_all add: srix_parse_line_def trim_def isspace_def startsWith_def indexOf_def
        substring_def substring_from_def remove_char_def byte_of_hex_def strtoul16_def
        hexval_def Let_def SRIX_UID_SIZE_def HEX_CHARS_PER_BYTE_def upt_rec)

text \<open>
  C6, on a file whose 128 data lines all give block 0.  The load returns \<open>SUCCESS\<close> and
  marks the dump valid from load.  The dump holds the four bytes of block 0; its other
  508 bytes are the zeros left by the clearing of the buffer, since no line gave any of
  the blocks 1 to 127.  \<open>blocks_loaded\<close> counts the lines accepted, not the distinct
  blocks.
\<close>

theorem srix_load_accepts_duplicate_lines:
  "srix_load_file_headless ''dup'' SRIXTool_new fs_duplicates
     = (SRIX_SUCCESS,
        SRIXTool_new\<lparr>dump_valid_from_load := True,
                      srix_uid := store (\<lambda>_. 0) 0 [0xD0, 0x02, 0x12, 0x34, 0x56, 0x78, 0x9A, 0xBC],
                      srix_dump := store (\<lambda>_. 0) 0 [0xDE, 0xAD, 0xBE, 0xEF]\<rparr>)
   \<and> load (store (\<lambda>_. 0) 0 [0xDE, 0xAD, 0xBE, 0xEF]) SRIX_BLOCK_SIZE
          (SRIX_TOTAL_SIZE - SRIX_BLOCK_SIZE)
       = replicate (SRIX_TOTAL_SIZE - SRIX_BLOCK_SIZE) 0"
proof -
  have lines: "file_lines (println ''Filetype: SRIX Dump'' @ println ''UID: D002123456789ABC''
                 @ println ''# Data:'' @ concat (replicate 128 (println ''[00] DEADBEEF'')))
      = [''Filetype: SRIX Dump'' @ [CHR 0x0D], ''UID: D002123456789ABC'' @ [CHR 0x0D],
         ''# Data:'' @ [CHR 0x0D]]
        @ replicate (Suc 127) (''[00] DEADBEEF'' @ [CHR 0x0D])"
  proof -
    have h1: "CHR 0x0A \<notin> set ''Filetype: SRIX Dump''" by simp
    have h2: "CHR 0x0A \<notin> set ''UID: D002123456789ABC''" by simp
    have h3: "CHR 0x0A \<notin> set ''# Data:''" by simp
    have h4: "CHR 0x0A \<notin> set ''[00] DEADBEEF''" by simp
    have n: "(128::nat) = Suc 127" by simp
    show ?thesis
      by (simp only: file_lines_println [OF h1] file_lines_println [OF h2]
            file_lines_println [OF h3] file_lines_replicate [OF h4] n append_Cons append_Nil)
  qed
  have f: "fold srix_parse_line
             (file_lines (println ''Filetype: SRIX Dump'' @ println ''UID: D002123456789ABC''
                 @ println ''# Data:'' @ concat (replicate 128 (println ''[00] DEADBEEF''))))
             (False, 0, SRIXTool_new\<lparr>srix_dump := (\<lambda>_. 0), srix_uid := (\<lambda>_. 0)\<rparr>)
           = (True, 128,
              SRIXTool_new\<lparr>srix_dump := store (\<lambda>_. 0) 0 [0xDE, 0xAD, 0xBE, 0xEF],
                 srix_uid := store (\<lambda>_. 0) 0 [0xD0, 0x02, 0x12, 0x34, 0x56, 0x78, 0x9A, 0xBC]\<rparr>)"
    unfolding lines
    by (simp only: fold_append fold_simps comp_apply id_apply srix_header_lines fold_block0)
       (simp add: SRIXTool_new_def)
  have z: "load (store (\<lambda>_. 0) 0 [0xDE, 0xAD, 0xBE, 0xEF]) SRIX_BLOCK_SIZE
             (SRIX_TOTAL_SIZE - SRIX_BLOCK_SIZE)
           = replicate (SRIX_TOTAL_SIZE - SRIX_BLOCK_SIZE) 0"
    by (simp add: load_def store_def SRIX_BLOCK_SIZE_def map_replicate_const)
  have "srix_load_file_headless ''dup'' SRIXTool_new fs_duplicates
     = (SRIX_SUCCESS,
        SRIXTool_new\<lparr>dump_valid_from_load := True,
                      srix_uid := store (\<lambda>_. 0) 0 [0xD0, 0x02, 0x12, 0x34, 0x56, 0x78, 0x9A, 0xBC],
                      srix_dump := store (\<lambda>_. 0) 0 [0xDE, 0xAD, 0xBE, 0xEF]\<rparr>)"
    by (simp add: srix_load_file_headless_def fs_duplicates_def fs_exists_def Let_def
          NFC_SRIX_DUMP_FOLDER_def endsWith_def f SRIX_BLOCK_COUNT_def)
       (simp add: SRIXTool_new_def)
  with z show ?thesis by simp
qed

end
